theory Spec2Isabelle
  imports Main "HOL-Library.Sublist" "HOL-Library.Multiset"
begin

section \<open>Motion-correction demos of pypreprocess: \<open>examples/realign_demos.py\<close>\<close>

text \<open>
  The module holds one generic runner, \<open>_demo_runner\<close>, and four demos. Each demo defines
  a generator \<open>subject_factory\<close> that turns the listing of a fetched dataset into
  \<open>SubjectData\<close> records and hands it to the runner. The runner loops over the records and
  drives the external motion-correction engine and the external plotting routine.

  The embedding keeps that shape: strings are \<open>string\<close>, the named tuple is a record, a
  generator is the finite trace of what it yields followed by how it ends, exceptions are
  values of the type \<open>error\<close>, and the collaborators that live outside the module (the
  engine, the plotting routine, the plot window) are a parameter: a function that answers
  every call from the history of the calls made before it.
\<close>

subsection \<open>Python strings\<close>

text \<open>
  \<open>needle in haystack\<close> on two strings: true iff \<open>needle\<close> occurs as a contiguous run
  of characters of \<open>haystack\<close>. The empty string occurs in every string.
\<close>

fun py_in :: "string \<Rightarrow> string \<Rightarrow> bool" where
  "py_in needle [] = (needle = [])"
| "py_in needle (c # cs) = (prefix needle (c # cs) \<or> py_in needle cs)"

text \<open>The decimal digits of a natural number, as \<open>"%i"\<close> prints them.\<close>

fun digits :: "nat \<Rightarrow> string" where
  "digits n =
     (if n < 10 then [''0123456789'' ! n]
      else digits (n div 10) @ [''0123456789'' ! (n mod 10)])"

declare digits.simps [simp del]

text \<open>\<open>"%i" % n\<close> for a Python integer: a minus sign for a negative number.\<close>

definition fmt_i :: "int \<Rightarrow> string" where
  "fmt_i n = (if n < 0 then CHR ''-'' # digits (nat (- n)) else digits (nat n))"

text \<open>\<open>s.rfind(c)\<close> for a single character: the highest index of \<open>c\<close>, or \<open>-1\<close>.\<close>

fun rfind :: "string \<Rightarrow> char \<Rightarrow> int" where
  "rfind [] c = - 1"
| "rfind (x # xs) c =
     (let r = rfind xs c in if 0 \<le> r then r + 1 else if x = c then 0 else - 1)"

text \<open>\<open>s.rstrip(c)\<close> for a single character: drop every trailing \<open>c\<close>.\<close>

definition rstrip :: "string \<Rightarrow> char \<Rightarrow> string" where
  "rstrip s c = rev (dropWhile (\<lambda>x. x = c) (rev s))"

subsection \<open>\<open>os.path\<close> on POSIX\<close>

text \<open>
  \<^verbatim>\<open>
  def basename(p):
      i = p.rfind('/') + 1
      return p[i:]

  def dirname(p):
      i = p.rfind('/') + 1
      head = p[:i]
      if head and head != '/'*len(head):
          head = head.rstrip('/')
      return head

  def join(a, *p):
      path = a
      for b in p:
          if b.startswith('/'):
              path = b
          elif path == '' or path.endswith('/'):
              path += b
          else:
              path += '/' + b
      return path
  \<close>
  The index \<open>i\<close> is never negative and never beyond the end of \<open>p\<close>, so the two slices
  are \<open>drop\<close> and \<open>take\<close>.
\<close>

definition basename :: "string \<Rightarrow> string" where
  "basename p = (let i = nat (rfind p CHR ''/'' + 1) in drop i p)"

definition dirname :: "string \<Rightarrow> string" where
  "dirname p =
     (let i = nat (rfind p CHR ''/'' + 1);
          head = take i p
      in if head \<noteq> [] \<and> head \<noteq> replicate (length head) CHR ''/''
         then rstrip head CHR ''/'' else head)"

definition startswith_slash :: "string \<Rightarrow> bool" where
  "startswith_slash b = (case b of [] \<Rightarrow> False | c # _ \<Rightarrow> c = CHR ''/'')"

definition endswith_slash :: "string \<Rightarrow> bool" where
  "endswith_slash p = (p \<noteq> [] \<and> last p = CHR ''/'')"

fun join :: "string \<Rightarrow> string list \<Rightarrow> string" where
  "join path [] = path"
| "join path (b # bs) =
     join (if startswith_slash b then b
           else if path = [] \<or> endswith_slash path then path @ b
           else path @ ''/'' @ b) bs"

declare join.simps [simp del]

text \<open>
  \<open>p.split('/')\<close>, the components of a path. The directory components of a path are its
  components before the last one (the file name).
\<close>

fun split_slash :: "string \<Rightarrow> string list" where
  "split_slash [] = [[]]"
| "split_slash (c # cs) =
     (if c = CHR ''/'' then [] # split_slash cs
      else (case split_slash cs of [] \<Rightarrow> [[c]] | w # ws \<Rightarrow> (c # w) # ws))"

definition directory_components :: "string \<Rightarrow> string list" where
  "directory_components p = butlast (split_slash p)"

subsection \<open>Data model\<close>

text \<open>
  The \<open>func\<close> field of a record is "string or list of strings" in the runner's
  docstring; the demos also put whatever the dataset object holds into a list. A value is
  therefore a path or a list of such values.
\<close>

datatype func_value = Path string | Series "func_value list"

text \<open>\<^verbatim>\<open>SubjectData = namedtuple('SubjectData', 'subject_id func output_dir')\<close>\<close>

record SubjectData =
  subject_id :: string
  func :: func_value
  output_dir :: string

text \<open>
  The exceptions the module can see: the failed \<open>assert\<close> of the NYU factory, and
  whatever a collaborator raises, carried as it is.
\<close>

datatype error = AssertionError | CollaboratorError string

text \<open>
  A generator, run to its end: the values it yields, then either \<open>StopIteration\<close>
  (\<open>Stop\<close>) or an exception (\<open>Raise\<close>). The consumer sees the values one at a time, so
  what was yielded before an exception has already been consumed.
\<close>

datatype 'a gen = Stop | Raise error | Yield 'a "'a gen"

fun gen_records :: "'a gen \<Rightarrow> 'a list" where
  "gen_records Stop = []"
| "gen_records (Raise e) = []"
| "gen_records (Yield x g) = x # gen_records g"

fun gen_error :: "'a gen \<Rightarrow> error option" where
  "gen_error Stop = None"
| "gen_error (Raise e) = Some e"
| "gen_error (Yield x g) = gen_error g"

subsection \<open>Iterating over a Python set\<close>

text \<open>
  \<open>for subject_id in set([...])\<close> visits every distinct element of the list once, in an
  order the language does not fix. The enumerations a loop over \<open>set(xs)\<close> may follow:
\<close>

definition py_set_iter :: "'a list \<Rightarrow> 'a list set" where
  "py_set_iter xs = {ys. distinct ys \<and> set ys = set xs}"

subsection \<open>The subject factories\<close>

text \<open>
  \<^verbatim>\<open>
  def subject_factory(session=1):
      session_func = [x for x in nyu_data.func if "session%i" % session in x]

      for subject_id in set([os.path.basename(
                  os.path.dirname
                  (os.path.dirname(x)))
                             for x in session_func]):
          # set func
          func = [
              x for x in session_func if subject_id in x]
          assert len(func) == 1
          func = func[0]

          yield SubjectData(subject_id=subject_id, func=func,
                            output_dir=os.path.join(
                  output_dir,
                  "session%i" % session, subject_id))
  \<close>
  \<open>nyu_func\<close> is \<open>nyu_data.func\<close>, the listing the fetcher returned, and \<open>out_dir\<close> the
  \<open>output_dir\<close> of the enclosing demo. The last argument of the factory is the order in
  which the set of identifiers is visited.
\<close>

definition session_marker :: "int \<Rightarrow> string" where
  "session_marker session = ''session'' @ fmt_i session"

definition session_func :: "string list \<Rightarrow> int \<Rightarrow> string list" where
  "session_func nyu_func session = filter (py_in (session_marker session)) nyu_func"

definition subject_id_of :: "string \<Rightarrow> string" where
  "subject_id_of x = basename (dirname (dirname x))"

definition subject_ids :: "string list \<Rightarrow> string list" where
  "subject_ids sf = map subject_id_of sf"

fun nyu_rest_loop :: "string list \<Rightarrow> string \<Rightarrow> int \<Rightarrow> string list \<Rightarrow> SubjectData gen" where
  "nyu_rest_loop sf out_dir session [] = Stop"
| "nyu_rest_loop sf out_dir session (sid # ids) =
     (case filter (py_in sid) sf of
        [x] \<Rightarrow>
          Yield \<lparr>subject_id = sid, func = Path x,
                 output_dir = join out_dir [session_marker session, sid]\<rparr>
            (nyu_rest_loop sf out_dir session ids)
      | _ \<Rightarrow> Raise AssertionError)"

definition nyu_rest_subject_factory ::
    "string list \<Rightarrow> string \<Rightarrow> int \<Rightarrow> string list \<Rightarrow> SubjectData gen" where
  "nyu_rest_subject_factory nyu_func out_dir session ids =
     nyu_rest_loop (session_func nyu_func session) out_dir session ids"

text \<open>
  The three single-subject factories yield one record and stop.
  \<^verbatim>\<open>
  def subject_factory():
          subject_id = "sub001"
          yield SubjectData(subject_id=subject_id,
                            func=fsl_feeds_data.func,
                            output_dir=os.path.join(output_dir, subject_id))
  \<close>
  With \<open>func=[spm_multimodal_fmri_data.func1, spm_multimodal_fmri_data.func2]\<close> for the
  multimodal dataset and \<open>func=[spm_auditory_data.func]\<close> for the auditory one.
\<close>

definition fsl_feeds_subject_factory :: "func_value \<Rightarrow> string \<Rightarrow> SubjectData gen" where
  "fsl_feeds_subject_factory fsl_func out_dir =
     (let sid = ''sub001''
      in Yield \<lparr>subject_id = sid, func = fsl_func, output_dir = join out_dir [sid]\<rparr> Stop)"

definition spm_multimodal_fmri_subject_factory ::
    "func_value \<Rightarrow> func_value \<Rightarrow> string \<Rightarrow> SubjectData gen" where
  "spm_multimodal_fmri_subject_factory func1 func2 out_dir =
     (let sid = ''sub001''
      in Yield \<lparr>subject_id = sid, func = Series [func1, func2],
                output_dir = join out_dir [sid]\<rparr> Stop)"

definition spm_auditory_subject_factory :: "func_value \<Rightarrow> string \<Rightarrow> SubjectData gen" where
  "spm_auditory_subject_factory aud_func out_dir =
     (let sid = ''sub001''
      in Yield \<lparr>subject_id = sid, func = Series [aud_func],
                output_dir = join out_dir [sid]\<rparr> Stop)"

subsection \<open>The collaborators and the runner\<close>

text \<open>
  The keyword arguments \<open>**spm_realign_kwargs\<close>: a dictionary from option names to
  values (the only one the demos pass is \<open>n_sessions=2\<close>).
\<close>

type_synonym kwargs = "string \<rightharpoonup> int"

text \<open>
  What the runner does to the outside, in the order of the source: the progress line it
  prints, \<open>MRIMotionCorrection(**spm_realign_kwargs)\<close>, \<open>mrimc.fit(func)\<close>,
  \<open>mrimc.transform(output_dir, reslice=.., concat=..)\<close>,
  \<open>plot_spm_motion_parameters(rp_filename, title=..)\<close> and \<open>plt.show()\<close>.
\<close>

datatype call =
    Print string
  | Construct kwargs
  | Fit func_value
  | Transform string bool bool
  | Render string string
  | Show

type_synonym history = "call list"

text \<open>
  The collaborators are not part of the module. They answer a call, given all the calls
  made so far, either by raising or by returning; the only returned value the runner
  reads is \<open>mrimc._rp_filenames_\<close> after \<open>transform\<close>, so an answer carries a list of file
  names (ignored for the other calls).
\<close>

type_synonym world = "history \<Rightarrow> call \<Rightarrow> error + string list"

text \<open>Writing the progress line is taken never to raise; every other call may.\<close>

definition respond :: "world \<Rightarrow> history \<Rightarrow> call \<Rightarrow> error + string list" where
  "respond w h c = (case c of Print _ \<Rightarrow> Inr [] | _ \<Rightarrow> w h c)"

text \<open>
  One call followed by the rest of the block: the call is recorded; if it raises, the
  exception ends the run there, otherwise the rest goes on with the value returned.
\<close>

definition call_then ::
    "world \<Rightarrow> call \<Rightarrow> (string list \<Rightarrow> history \<Rightarrow> history \<times> error option)
       \<Rightarrow> history \<Rightarrow> history \<times> error option" where
  "call_then w c k h =
     (case respond w h c of
        Inl e \<Rightarrow> (h @ [c], Some e)
      | Inr v \<Rightarrow> k v (h @ [c]))"

definition banner :: "string \<Rightarrow> string \<Rightarrow> string" where
  "banner sid dataset_id =
     [CHR 0x09, CHR 0x09] @ ''Motion correction for '' @ sid @ '' ('' @ dataset_id @ '')''"

definition plot_title :: "string \<Rightarrow> nat \<Rightarrow> string \<Rightarrow> string" where
  "plot_title sid sess dataset_id =
     ''Estimated motion for '' @ sid @ '' (session '' @ fmt_i (int sess) @ '') of ''
       @ [CHR 0x27] @ dataset_id @ [CHR 0x27]"

text \<open>
  \<^verbatim>\<open>
  for sess, rp_filename in zip(xrange(len(mrimc._rp_filenames_)),
                               mrimc._rp_filenames_):
      plot_spm_motion_parameters(
          rp_filename,
          title="Estimated motion for %s (session %i) of '%s'" % (
              subject_data.subject_id, sess, dataset_id))
  \<close>
\<close>

fun plot_loop ::
    "world \<Rightarrow> string \<Rightarrow> string \<Rightarrow> (nat \<times> string) list \<Rightarrow> history
       \<Rightarrow> history \<times> error option" where
  "plot_loop w sid dataset_id [] h = (h, None)"
| "plot_loop w sid dataset_id ((sess, rp_filename) # rest) h =
     call_then w (Render rp_filename (plot_title sid sess dataset_id))
       (\<lambda>_. plot_loop w sid dataset_id rest) h"

text \<open>The body of the runner's loop, for one record.\<close>

definition subject_body ::
    "world \<Rightarrow> SubjectData \<Rightarrow> string \<Rightarrow> kwargs \<Rightarrow> history \<Rightarrow> history \<times> error option" where
  "subject_body w subject_data dataset_id spm_realign_kwargs =
     call_then w (Print (banner (subject_id subject_data) dataset_id)) (\<lambda>_.
     call_then w (Construct spm_realign_kwargs) (\<lambda>_.
     call_then w (Fit (func subject_data)) (\<lambda>_.
     call_then w (Transform (output_dir subject_data) True True) (\<lambda>rp_filenames h.
       (case plot_loop w (subject_id subject_data) dataset_id
               (zip [0 ..< length rp_filenames] rp_filenames) h of
          (h', Some e) \<Rightarrow> (h', Some e)
        | (h', None) \<Rightarrow> call_then w Show (\<lambda>_ h''. (h'', None)) h')))))"

text \<open>
  \<^verbatim>\<open>
  def _demo_runner(subjects, dataset_id, **spm_realign_kwargs):
      for subject_data in subjects:
          print(...)
          mrimc = MRIMotionCorrection(**spm_realign_kwargs)
          mrimc.fit(subject_data.func)
          mrimc.transform(subject_data.output_dir, reslice=True, concat=True)
          for sess, rp_filename in zip(...): plot_spm_motion_parameters(...)
          plt.show()
  \<close>
  The result is the history of calls at the end and how the run ended: \<open>None\<close> when the
  function returned, \<open>Some e\<close> when \<open>e\<close> was raised out of it.
\<close>

fun demo_runner ::
    "world \<Rightarrow> SubjectData gen \<Rightarrow> string \<Rightarrow> kwargs \<Rightarrow> history \<Rightarrow> history \<times> error option" where
  "demo_runner w Stop dataset_id spm_realign_kwargs h = (h, None)"
| "demo_runner w (Raise e) dataset_id spm_realign_kwargs h = (h, Some e)"
| "demo_runner w (Yield subject_data subjects) dataset_id spm_realign_kwargs h =
     (case subject_body w subject_data dataset_id spm_realign_kwargs h of
        (h', Some e) \<Rightarrow> (h', Some e)
      | (h', None) \<Rightarrow> demo_runner w subjects dataset_id spm_realign_kwargs h')"

subsection \<open>The demos\<close>

text \<open>
  Each demo fetches its dataset and calls the runner on a fresh generator. The fetched
  listing is the first argument here; the runner starts from the empty history.
\<close>

definition demo_nyu_rest :: "world \<Rightarrow> string list \<Rightarrow> string \<Rightarrow> string list \<Rightarrow> history \<times> error option" where
  "demo_nyu_rest w nyu_func out_dir ids =
     demo_runner w (nyu_rest_subject_factory nyu_func out_dir 1 ids)
       ''NYU resting state'' Map.empty []"

definition demo_fsl_feeds :: "world \<Rightarrow> func_value \<Rightarrow> string \<Rightarrow> history \<times> error option" where
  "demo_fsl_feeds w fsl_func out_dir =
     demo_runner w (fsl_feeds_subject_factory fsl_func out_dir) ''FSL FEEDS'' Map.empty []"

definition demo_spm_multimodal_fmri ::
    "world \<Rightarrow> func_value \<Rightarrow> func_value \<Rightarrow> string \<Rightarrow> history \<times> error option" where
  "demo_spm_multimodal_fmri w func1 func2 out_dir =
     demo_runner w (spm_multimodal_fmri_subject_factory func1 func2 out_dir)
       ''SPM Multimodal fMRI faces vs scrambled'' [''n_sessions'' \<mapsto> 2] []"

definition demo_spm_auditory :: "world \<Rightarrow> func_value \<Rightarrow> string \<Rightarrow> history \<times> error option" where
  "demo_spm_auditory w aud_func out_dir =
     demo_runner w (spm_auditory_subject_factory aud_func out_dir)
       ''SPM single-subject Auditory'' Map.empty []"

subsection \<open>Reading a history\<close>

text \<open>
  \<open>all_ok w h cs\<close>: the calls \<open>cs\<close>, made one after the other from the history \<open>h\<close>, all
  return. \<open>stops_at_failure w h cs r\<close>: walking through the calls \<open>cs\<close> made from \<open>h\<close>,
  a call that raises \<open>e\<close> is the last one, and the run ends with \<open>r = Some e\<close>.
\<close>

fun all_ok :: "world \<Rightarrow> history \<Rightarrow> call list \<Rightarrow> bool" where
  "all_ok w h [] = True"
| "all_ok w h (c # cs) = (\<not> isl (respond w h c) \<and> all_ok w (h @ [c]) cs)"

fun stops_at_failure :: "world \<Rightarrow> history \<Rightarrow> call list \<Rightarrow> error option \<Rightarrow> bool" where
  "stops_at_failure w h [] r = True"
| "stops_at_failure w h (c # cs) r =
     (case respond w h c of
        Inl e \<Rightarrow> cs = [] \<and> r = Some e
      | Inr _ \<Rightarrow> stops_at_failure w (h @ [c]) cs r)"

text \<open>
  A block of the runner keeps to that discipline when, from every history, it only adds
  calls and stops at the first one that raises.
\<close>

definition run_inv :: "world \<Rightarrow> (history \<Rightarrow> history \<times> error option) \<Rightarrow> bool" where
  "run_inv w m = (\<forall>h. \<exists>t. fst (m h) = h @ t \<and> stops_at_failure w h t (snd (m h)))"

text \<open>The arguments of the \<open>fit\<close>, \<open>transform\<close> and plotting calls of a history, in order.\<close>

fun fit_args :: "history \<Rightarrow> func_value list" where
  "fit_args [] = []"
| "fit_args (Fit f # cs) = f # fit_args cs"
| "fit_args (c # cs) = fit_args cs"

fun transform_args :: "history \<Rightarrow> string list" where
  "transform_args [] = []"
| "transform_args (Transform d reslice cat # cs) = d # transform_args cs"
| "transform_args (c # cs) = transform_args cs"

fun render_files :: "history \<Rightarrow> string list" where
  "render_files [] = []"
| "render_files (Render f title # cs) = f # render_files cs"
| "render_files (c # cs) = render_files cs"

subsection \<open>The call sequence the specification describes\<close>

text \<open>
  Written from the words of the specification, to be compared with the runner: for one
  subject, the progress line, the construction of the engine with the configuration
  bundle, one \<open>fit\<close> on the subject's \<open>func\<close>, one \<open>transform\<close> into its \<open>output_dir\<close>,
  one plot per realignment-parameter file with the zero-based session index in the title,
  in the order of the files, and the display of the plots.
\<close>

definition subject_calls :: "string \<Rightarrow> kwargs \<Rightarrow> SubjectData \<Rightarrow> string list \<Rightarrow> call list" where
  "subject_calls dataset_id kw sd rp_filenames =
     [Print (banner (subject_id sd) dataset_id), Construct kw, Fit (func sd),
      Transform (output_dir sd) True True]
     @ map (\<lambda>(sess, rp_filename).
              Render rp_filename (plot_title (subject_id sd) sess dataset_id))
         (zip [0 ..< length rp_filenames] rp_filenames)
     @ [Show]"

text \<open>What \<open>transform\<close> returns for a subject whose pipeline starts at the history \<open>h\<close>.\<close>

definition transform_output :: "world \<Rightarrow> history \<Rightarrow> string \<Rightarrow> kwargs \<Rightarrow> SubjectData \<Rightarrow> string list" where
  "transform_output w h dataset_id kw sd =
     (case respond w
             (h @ [Print (banner (subject_id sd) dataset_id), Construct kw, Fit (func sd)])
             (Transform (output_dir sd) True True) of
        Inl _ \<Rightarrow> []
      | Inr rp_filenames \<Rightarrow> rp_filenames)"

text \<open>The calls for a list of subjects, one block after the other, from the history \<open>h\<close>.\<close>

fun expected_calls :: "world \<Rightarrow> SubjectData list \<Rightarrow> string \<Rightarrow> kwargs \<Rightarrow> history \<Rightarrow> call list" where
  "expected_calls w [] dataset_id kw h = []"
| "expected_calls w (sd # sds) dataset_id kw h =
     subject_calls dataset_id kw sd (transform_output w h dataset_id kw sd)
     @ expected_calls w sds dataset_id kw
         (h @ subject_calls dataset_id kw sd (transform_output w h dataset_id kw sd))"

subsection \<open>Collaborators used as examples\<close>

text \<open>
  A world in which every call returns and \<open>transform\<close> leaves two parameter files, a
  world in which \<open>fit\<close> raises, and a world in which plotting the second parameter file
  raises.
\<close>

definition two_session_world :: world where
  "two_session_world h c =
     (case c of Transform _ _ _ \<Rightarrow> Inr [''rp_0.txt'', ''rp_1.txt''] | _ \<Rightarrow> Inr [])"

definition failing_fit_world :: world where
  "failing_fit_world h c =
     (case c of
        Fit _ \<Rightarrow> Inl (CollaboratorError ''fit'')
      | Transform _ _ _ \<Rightarrow> Inr [''rp_0.txt'']
      | _ \<Rightarrow> Inr [])"

definition failing_render_world :: world where
  "failing_render_world h c =
     (case c of
        Transform _ _ _ \<Rightarrow> Inr [''rp_0.txt'', ''rp_1.txt'']
      | Render f _ \<Rightarrow> if f = ''rp_1.txt'' then Inl (CollaboratorError ''plot'') else Inr []
      | _ \<Rightarrow> Inr [])"

abbreviation subject_a :: SubjectData where
  "subject_a \<equiv> \<lparr>subject_id = ''a'', func = Path ''/d/a.nii'', output_dir = ''/out/a''\<rparr>"

abbreviation subject_b :: SubjectData where
  "subject_b \<equiv> \<lparr>subject_id = ''b'', func = Path ''/d/b.nii'', output_dir = ''/out/b''\<rparr>"

subsection \<open>Listings used as examples\<close>

text \<open>
  Three small listings for session 1. In the first the file lies directly in the
  subject's directory; in the second it lies in a \<open>func\<close> directory below it, so that the
  subject's directory is two levels above the file; the third has two runs in the
  directory of one subject.
\<close>

abbreviation listing_flat :: "string list" where
  "listing_flat \<equiv> [''/d/session1/s1/f.nii'', ''/d/session1/s2/f.nii'']"

abbreviation listing_nested :: "string list" where
  "listing_nested \<equiv> [''/d/session1/s1/func/f.nii'', ''/d/session1/s2/func/f.nii'']"

abbreviation listing_two_runs :: "string list" where
  "listing_two_runs \<equiv> [''/d/session1/s1/func/f.nii'', ''/d/session1/s1/func/g.nii'']"

text \<open>
  Two more: a listing in which the name of one subject's directory extends the name of
  another's, and a listing whose only path has no directory at all.
\<close>

abbreviation listing_s1_s10 :: "string list" where
  "listing_s1_s10 \<equiv> [''/d/session1/s1/func/f.nii'', ''/d/session1/s10/func/f.nii'']"

abbreviation listing_bare :: "string list" where
  "listing_bare \<equiv> [''session1_f.nii'']"

section \<open>Properties of the string and path functions\<close>

text \<open>
  The recursive membership test decides exactly "occurs as a contiguous run": there are
  strings before and after the needle that make up the haystack.
\<close>

lemma py_in_sublist: "py_in needle hay = sublist needle hay"
  by (induction hay) (simp_all add: sublist_Cons_right)

lemma py_in_iff: "py_in needle hay \<longleftrightarrow> (\<exists>before after. hay = before @ needle @ after)"
  by (simp add: py_in_sublist sublist_def)

lemma prefix_rstrip: "prefix (rstrip s c) s"
proof -
  have "suffix (dropWhile (\<lambda>x. x = c) (rev s)) (rev s)"
    by (rule suffix_dropWhile)
  then show ?thesis
    by (simp add: rstrip_def suffix_to_prefix)
qed

lemma prefix_dirname: "prefix (dirname p) p"
proof -
  have "prefix (rstrip (take i p) c) p" for i c
    using prefix_rstrip [of "take i p" c] take_is_prefix [of i p]
    by (rule prefix_order.trans)
  then show ?thesis
    by (simp add: dirname_def Let_def take_is_prefix)
qed

lemma prefix_dirname_dirname: "prefix (dirname (dirname p)) p"
  using prefix_dirname [of "dirname p"] prefix_dirname [of p]
  by (rule prefix_order.trans)

lemma suffix_basename: "suffix (basename p) p"
  by (simp add: basename_def Let_def suffix_drop)

lemma sublist_subject_id_of: "sublist (subject_id_of x) x"
proof -
  have "suffix (subject_id_of x) (dirname (dirname x))"
    by (simp add: subject_id_of_def suffix_basename)
  with prefix_dirname_dirname [of x] show ?thesis
    by (auto simp: sublist_altdef)
qed

lemma py_in_subject_id_of: "py_in (subject_id_of x) x"
  by (simp add: py_in_sublist sublist_subject_id_of)

text \<open>
  The components of a path, and where \<open>basename\<close> and \<open>dirname\<close> cut it: the base name
  holds no slash and starts the path or follows a slash; a directory name that does not
  end in a slash is followed by one in the path.
\<close>

lemma split_slash_nonempty: "split_slash xs \<noteq> []"
  by (induction xs) (auto split: list.splits)

lemma split_slash_no_slash: "CHR ''/'' \<notin> set xs \<Longrightarrow> split_slash xs = [xs]"
  by (induction xs) auto

lemma split_slash_append:
  "split_slash (a @ CHR ''/'' # b) = split_slash a @ split_slash b"
proof (induction a)
  case Nil
  then show ?case by simp
next
  case (Cons c a)
  obtain w ws where "split_slash a = w # ws"
    using split_slash_nonempty [of a] by (cases "split_slash a") auto
  with Cons show ?case
    by simp
qed

lemma rfind_absent: "c \<notin> set p \<Longrightarrow> rfind p c = - 1"
  by (induction p) (auto simp: Let_def)

lemma rfind_present:
  "c \<in> set p \<Longrightarrow> \<exists>a b. p = a @ c # b \<and> c \<notin> set b \<and> rfind p c = int (length a)"
proof (induction p)
  case Nil
  then show ?case by simp
next
  case (Cons x xs)
  show ?case
  proof (cases "c \<in> set xs")
    case True
    from Cons.IH [OF True] obtain a b
      where ab: "xs = a @ c # b" "c \<notin> set b" "rfind xs c = int (length a)"
      by blast
    then have "x # xs = (x # a) @ c # b \<and> c \<notin> set b \<and> rfind (x # xs) c = int (length (x # a))"
      by (simp add: Let_def)
    then show ?thesis by blast
  next
    case False
    with Cons.prems have x: "x = c" by simp
    from False have "rfind xs c = - 1" by (rule rfind_absent)
    with x False have "x # xs = [] @ c # xs \<and> c \<notin> set xs \<and> rfind (x # xs) c = int (length ([]::string))"
      by (simp add: Let_def)
    then show ?thesis by blast
  qed
qed

lemma basename_decomp:
  "\<exists>pre. p = pre @ basename p \<and> (pre = [] \<or> last pre = CHR ''/'') \<and> CHR ''/'' \<notin> set (basename p)"
proof (cases "CHR ''/'' \<in> set p")
  case True
  from rfind_present [OF True] obtain a b
    where ab: "p = a @ CHR ''/'' # b" "CHR ''/'' \<notin> set b" "rfind p CHR ''/'' = int (length a)"
    by blast
  then have "basename p = b"
    by (simp add: basename_def Let_def nat_add_distrib)
  with ab have "p = (a @ [CHR ''/'']) @ basename p \<and> last (a @ [CHR ''/'']) = CHR ''/'' \<and>
      CHR ''/'' \<notin> set (basename p)"
    by simp
  then show ?thesis by blast
next
  case False
  then have "basename p = p"
    by (simp add: basename_def rfind_absent)
  with False show ?thesis by simp
qed

lemma rstrip_decomp: "\<exists>t. s = rstrip s c @ t \<and> set t \<subseteq> {c}"
proof -
  let ?P = "\<lambda>x. x = c"
  have "rev (dropWhile ?P (rev s)) @ rev (takeWhile ?P (rev s)) =
      rev (takeWhile ?P (rev s) @ dropWhile ?P (rev s))"
    by (simp only: rev_append)
  also have "\<dots> = rev (rev s)"
    by (simp only: takeWhile_dropWhile_id)
  finally have "s = rstrip s c @ rev (takeWhile ?P (rev s))"
    by (simp add: rstrip_def)
  moreover have "set (rev (takeWhile ?P (rev s))) \<subseteq> {c}"
    by (auto dest: set_takeWhileD)
  ultimately show ?thesis by blast
qed

lemma dirname_followed_by_slash:
  assumes "dirname p \<noteq> []" and "last (dirname p) \<noteq> CHR ''/''"
  shows "\<exists>rest. p = dirname p @ CHR ''/'' # rest"
proof (cases "CHR ''/'' \<in> set p")
  case False
  then have "dirname p = []"
    by (simp add: dirname_def rfind_absent)
  with assms show ?thesis by simp
next
  case True
  from rfind_present [OF True] obtain a b
    where ab: "p = a @ CHR ''/'' # b" "rfind p CHR ''/'' = int (length a)"
    by blast
  define head where "head = a @ [CHR ''/'']"
  from ab have p: "p = head @ b" and lst: "last head = CHR ''/''"
    by (simp_all add: head_def)
  from ab have tk: "take (nat (rfind p CHR ''/'' + 1)) p = head"
    by (simp add: nat_add_distrib head_def)
  have dn: "dirname p =
      (if head \<noteq> [] \<and> head \<noteq> replicate (length head) CHR ''/''
       then rstrip head CHR ''/'' else head)"
    unfolding dirname_def Let_def tk by (rule refl)
  show ?thesis
  proof (cases "head \<noteq> [] \<and> head \<noteq> replicate (length head) CHR ''/''")
    case False
    with dn have "dirname p = head"
      by simp
    with assms lst show ?thesis by simp
  next
    case True
    with dn have d: "dirname p = rstrip head CHR ''/''"
      by simp
    from rstrip_decomp [of head "CHR ''/''"] d obtain t
      where t: "head = dirname p @ t" "set t \<subseteq> {CHR ''/''}"
      by auto
    have "t \<noteq> []"
    proof
      assume "t = []"
      with t have "dirname p = head" by simp
      with assms(2) lst show False by simp
    qed
    then obtain t' where "t = CHR ''/'' # t'"
      using t(2) by (cases t) auto
    with t p have "p = dirname p @ CHR ''/'' # (t' @ b)"
      by (metis append.assoc append_Cons)
    then show ?thesis by blast
  qed
qed

text \<open>
  A derived identifier that is not empty is one of the directory components of the path
  it was derived from.
\<close>

lemma subject_id_is_directory_component:
  assumes "subject_id_of x \<noteq> []"
  shows "subject_id_of x \<in> set (directory_components x)"
proof -
  let ?d1 = "dirname x"
  let ?d2 = "dirname ?d1"
  let ?sid = "subject_id_of x"
  from basename_decomp [of ?d2] obtain pre
    where pre: "?d2 = pre @ ?sid" "pre = [] \<or> last pre = CHR ''/''" "CHR ''/'' \<notin> set ?sid"
    unfolding subject_id_of_def by blast
  from assms pre have d2: "?d2 \<noteq> []" "last ?d2 \<noteq> CHR ''/''"
    by (auto simp: last_append dest: last_in_set)
  from dirname_followed_by_slash [OF d2] obtain r1 where r1: "?d1 = ?d2 @ CHR ''/'' # r1"
    by blast
  from prefix_dirname [of x] obtain r2 where "x = ?d1 @ r2"
    by (auto simp: prefix_def)
  with r1 have "x = ?d2 @ CHR ''/'' # (r1 @ r2)"
    by (metis append.assoc append_Cons)
  with pre(1) have x: "x = (pre @ ?sid) @ CHR ''/'' # (r1 @ r2)"
    by simp
  have sid: "?sid \<in> set (split_slash (pre @ ?sid))"
  proof (cases "pre = []")
    case True
    with pre(3) show ?thesis
      by (simp add: split_slash_no_slash)
  next
    case False
    with pre(2) obtain pre' where "pre = pre' @ [CHR ''/'']"
      by (metis append_butlast_last_id)
    then have "split_slash (pre @ ?sid) = split_slash pre' @ split_slash ?sid"
      using split_slash_append [of pre' ?sid] by simp
    with pre(3) show ?thesis
      by (simp add: split_slash_no_slash)
  qed
  have "split_slash x = split_slash (pre @ ?sid) @ split_slash (r1 @ r2)"
    by (subst x) (rule split_slash_append)
  then have "directory_components x =
      split_slash (pre @ ?sid) @ butlast (split_slash (r1 @ r2))"
    by (simp add: directory_components_def butlast_append split_slash_nonempty)
  with sid show ?thesis
    by simp
qed

lemma session_marker_1: "session_marker 1 = ''session1''"
  by (simp add: session_marker_def fmt_i_def digits.simps)

lemma session_marker_10: "session_marker 10 = ''session10''"
  by (simp add: session_marker_def fmt_i_def digits.simps)

lemma session_func_flat: "session_func listing_flat 1 = listing_flat"
  by (simp add: session_func_def session_marker_1)

lemma session_func_nested: "session_func listing_nested 1 = listing_nested"
  by (simp add: session_func_def session_marker_1)

lemma session_func_two_runs: "session_func listing_two_runs 1 = listing_two_runs"
  by (simp add: session_func_def session_marker_1)

lemma subject_ids_flat: "subject_ids listing_flat = [''session1'', ''session1'']"
  by (simp add: subject_ids_def subject_id_of_def dirname_def basename_def rstrip_def)

lemma subject_ids_nested: "subject_ids listing_nested = [''s1'', ''s2'']"
  by (simp add: subject_ids_def subject_id_of_def dirname_def basename_def rstrip_def)

lemma subject_ids_two_runs: "subject_ids listing_two_runs = [''s1'', ''s1'']"
  by (simp add: subject_ids_def subject_id_of_def dirname_def basename_def rstrip_def)

section \<open>Properties of the NYU subject factory\<close>

lemma py_set_iter_iff: "ids \<in> py_set_iter xs \<longleftrightarrow> distinct ids \<and> set ids = set xs"
  by (simp add: py_set_iter_def)

text \<open>
  The loop over the identifiers raises at the first identifier that does not match
  exactly one path, and has yielded one record for each identifier before it.
\<close>

lemma nyu_rest_loop_error:
  "gen_error (nyu_rest_loop sf out_dir session ids) =
     (if list_all (\<lambda>sid. length (filter (py_in sid) sf) = 1) ids then None
      else Some AssertionError)"
  by (induction ids) (auto split: list.splits)

lemma nyu_rest_loop_records:
  "gen_records (nyu_rest_loop sf out_dir session ids) =
     map (\<lambda>sid. \<lparr>subject_id = sid, func = Path (hd (filter (py_in sid) sf)),
                 output_dir = join out_dir [session_marker session, sid]\<rparr>)
       (takeWhile (\<lambda>sid. length (filter (py_in sid) sf) = 1) ids)"
  by (induction ids) (auto split: list.splits)

lemma subject_id_matches:
  assumes "x \<in> set sf"
  shows "filter (py_in (subject_id_of x)) sf \<noteq> []"
proof -
  from assms have "x \<in> set (filter (py_in (subject_id_of x)) sf)"
    by (simp add: py_in_subject_id_of)
  then show ?thesis
    by (metis empty_iff empty_set)
qed

text \<open>
  Claim C10, as the code has it. Every identifier the NYU factory derives is the base
  name of the directory \<open>dirname (dirname x)\<close> of some path \<open>x\<close> of the session-filtered
  listing, and when it is not the empty string it is one of the directory components of
  \<open>x\<close>. That directory
  is a prefix of \<open>x\<close> and the identifier a suffix of it, so the identifier occurs in \<open>x\<close>
  and the list of matching paths is never empty. The assertion therefore never
  fails on zero matches: whenever the factory raises, it raises the assertion error and
  some identifier matches two paths or more.
\<close>

theorem nyu_zero_match_unreachable:
  assumes "ids \<in> py_set_iter (subject_ids (session_func nyu_func session))"
  shows "(\<forall>sid\<in>set ids. \<exists>x\<in>set (session_func nyu_func session).
            sid = basename (dirname (dirname x)) \<and> prefix (dirname (dirname x)) x \<and>
            (sid \<noteq> [] \<longrightarrow> sid \<in> set (directory_components x)) \<and>
            sublist sid x \<and> py_in sid x \<and>
            filter (py_in sid) (session_func nyu_func session) \<noteq> []) \<and>
         (gen_error (nyu_rest_subject_factory nyu_func out_dir session ids) \<noteq> None \<longrightarrow>
            gen_error (nyu_rest_subject_factory nyu_func out_dir session ids)
              = Some AssertionError \<and>
            (\<exists>sid\<in>set ids.
               2 \<le> length (filter (py_in sid) (session_func nyu_func session))))"
proof -
  let ?sf = "session_func nyu_func session"
  have ids: "set ids = subject_id_of ` set ?sf"
    using assms by (simp add: py_set_iter_iff subject_ids_def)
  have nonempty: "filter (py_in sid) ?sf \<noteq> []" if "sid \<in> set ids" for sid
  proof -
    from that ids obtain x where "x \<in> set ?sf" "sid = subject_id_of x"
      by auto
    then show ?thesis
      using subject_id_matches [of x ?sf] by simp
  qed
  have first: "\<exists>x\<in>set ?sf. sid = basename (dirname (dirname x)) \<and>
      prefix (dirname (dirname x)) x \<and>
      (sid \<noteq> [] \<longrightarrow> sid \<in> set (directory_components x)) \<and>
      sublist sid x \<and> py_in sid x \<and>
      filter (py_in sid) ?sf \<noteq> []" if "sid \<in> set ids" for sid
  proof -
    from that ids obtain x where x: "x \<in> set ?sf" "sid = subject_id_of x"
      by auto
    have "sid = basename (dirname (dirname x))"
      by (simp add: x subject_id_of_def)
    moreover have "prefix (dirname (dirname x)) x"
      by (rule prefix_dirname_dirname)
    moreover have "sid \<noteq> [] \<longrightarrow> sid \<in> set (directory_components x)"
      using subject_id_is_directory_component [of x] x by simp
    moreover have "sublist sid x" "py_in sid x"
      by (simp_all add: x sublist_subject_id_of py_in_subject_id_of)
    moreover note nonempty [OF that] x(1)
    ultimately show ?thesis
      by blast
  qed
  have second: "\<exists>sid\<in>set ids. 2 \<le> length (filter (py_in sid) ?sf)"
    if "\<not> list_all (\<lambda>sid. length (filter (py_in sid) ?sf) = 1) ids"
  proof -
    from that obtain sid
      where sid: "sid \<in> set ids" "length (filter (py_in sid) ?sf) \<noteq> 1"
      by (auto simp: list_all_iff)
    from nonempty [OF sid(1)] have "length (filter (py_in sid) ?sf) \<noteq> 0"
      by simp
    with sid show ?thesis
      by (intro bexI [of _ sid]) arith+
  qed
  show ?thesis
    using first second
    by (simp add: nyu_rest_subject_factory_def nyu_rest_loop_error)
qed

text \<open>
  The theorem at a listing with two runs in the directory of one subject: the only
  identifier is \<open>s1\<close>, both paths contain it, and the factory raises.
\<close>

theorem nyu_zero_match_unreachable_witness:
  "[''s1''] \<in> py_set_iter (subject_ids (session_func listing_two_runs 1)) \<and>
   gen_error (nyu_rest_subject_factory listing_two_runs ''/out'' 1 [''s1''])
     = Some AssertionError \<and>
   (\<exists>sid\<in>set [''s1''].
      2 \<le> length (filter (py_in sid) (session_func listing_two_runs 1)))"
proof -
  have h: "[''s1''] \<in> py_set_iter (subject_ids (session_func listing_two_runs 1))"
    by (simp add: session_func_two_runs subject_ids_two_runs py_set_iter_iff)
  have e: "gen_error (nyu_rest_subject_factory listing_two_runs ''/out'' 1 [''s1'']) \<noteq> None"
    by (simp add: nyu_rest_subject_factory_def session_func_two_runs)
  from nyu_zero_match_unreachable [OF h, of "''/out''"] e h show ?thesis
    by blast
qed

text \<open>
  An identifier need not be a directory component: a path with fewer than two directories
  above the file gives the empty string. The path below has no directory component, its
  identifier is the empty string, and the factory yields a record for it (the empty
  string occurs in every path).
\<close>

theorem nyu_zero_match_unreachable_counterexample:
  "session_func listing_bare 1 = listing_bare \<and>
   subject_ids (session_func listing_bare 1) = [[]] \<and>
   [[]] \<in> py_set_iter (subject_ids (session_func listing_bare 1)) \<and>
   directory_components ''session1_f.nii'' = [] \<and>
   [] \<notin> set (directory_components ''session1_f.nii'') \<and>
   nyu_rest_subject_factory listing_bare ''/out'' 1 [[]]
     = Yield \<lparr>subject_id = [], func = Path ''session1_f.nii'',
              output_dir = ''/out/session1/''\<rparr> Stop"
proof -
  have sf: "session_func listing_bare 1 = listing_bare"
    by (simp add: session_func_def session_marker_1)
  have ids: "subject_ids listing_bare = [[]]"
    by (simp add: subject_ids_def subject_id_of_def dirname_def basename_def)
  have dc: "directory_components ''session1_f.nii'' = []"
    by (simp add: directory_components_def)
  have f: "nyu_rest_subject_factory listing_bare ''/out'' 1 [[]]
     = Yield \<lparr>subject_id = [], func = Path ''session1_f.nii'',
              output_dir = ''/out/session1/''\<rparr> Stop"
    by (simp add: nyu_rest_subject_factory_def sf session_marker_1 join.simps
        startswith_slash_def endswith_slash_def)
  from sf ids dc f show ?thesis
    by (simp add: py_set_iter_iff)
qed

lemma filter_singletonD:
  assumes "filter P xs = [x]"
  shows "x \<in> set xs \<and> P x \<and> (\<forall>y\<in>set xs. P y \<longrightarrow> y = x)"
proof -
  from assms have "set (filter P xs) = {x}"
    by simp
  then show ?thesis
    by auto
qed

lemma length_one_conv: "length xs = 1 \<longleftrightarrow> (\<exists>x. xs = [x])"
  by (cases xs) auto

lemma nyu_rest_loop_unique:
  assumes "r \<in> set (gen_records (nyu_rest_loop sf out_dir session ids))"
  shows "subject_id r \<in> set ids \<and>
         output_dir r = join out_dir [session_marker session, subject_id r] \<and>
         (\<exists>x. func r = Path x \<and> filter (py_in (subject_id r)) sf = [x])"
proof -
  from assms obtain sid where sid: "sid \<in> set ids" "length (filter (py_in sid) sf) = 1"
    and r: "r = \<lparr>subject_id = sid, func = Path (hd (filter (py_in sid) sf)),
                 output_dir = join out_dir [session_marker session, sid]\<rparr>"
    by (auto simp: nyu_rest_loop_records dest: set_takeWhileD)
  from sid(2) obtain x where "filter (py_in sid) sf = [x]"
    using length_one_conv [of "filter (py_in sid) sf"] by blast
  with sid r show ?thesis
    by simp
qed

lemma nyu_rest_loop_complete:
  assumes "list_all (\<lambda>sid. length (filter (py_in sid) sf) = 1) ids"
  shows "map subject_id (gen_records (nyu_rest_loop sf out_dir session ids)) = ids"
proof -
  from assms have "takeWhile (\<lambda>sid. length (filter (py_in sid) sf) = 1) ids = ids"
    by (simp add: list_all_iff)
  then show ?thesis
    by (simp add: nyu_rest_loop_records comp_def)
qed

text \<open>
  Claim C2. For every listing, session and order of visiting the identifiers: every
  record the NYU factory yields carries an identifier derived from the session-filtered
  listing and, as its \<open>func\<close>, the one path of that listing that contains the identifier
  (no other entry of the listing contains it). When every derived identifier is contained
  in exactly one path, the factory ends normally with one record per identifier; when
  some derived identifier is contained in no path or in more than one, the factory fails
  with the assertion error (the \<open>AmbiguousSubjectError\<close> of the specification).
\<close>

theorem nyu_unique_path_or_assertion:
  assumes "ids \<in> py_set_iter (subject_ids (session_func nyu_func session))"
  shows "(\<forall>r\<in>set (gen_records (nyu_rest_subject_factory nyu_func out_dir session ids)).
            subject_id r \<in> set (subject_ids (session_func nyu_func session)) \<and>
            (\<exists>x. func r = Path x \<and>
                 filter (py_in (subject_id r)) (session_func nyu_func session) = [x] \<and>
                 x \<in> set (session_func nyu_func session) \<and> py_in (subject_id r) x \<and>
                 (\<forall>y\<in>set (session_func nyu_func session). py_in (subject_id r) y \<longrightarrow> y = x))) \<and>
         ((\<forall>sid\<in>set (subject_ids (session_func nyu_func session)).
              length (filter (py_in sid) (session_func nyu_func session)) = 1) \<longrightarrow>
            gen_error (nyu_rest_subject_factory nyu_func out_dir session ids) = None \<and>
            map subject_id (gen_records (nyu_rest_subject_factory nyu_func out_dir session ids))
              = ids) \<and>
         ((\<exists>sid\<in>set (subject_ids (session_func nyu_func session)).
              length (filter (py_in sid) (session_func nyu_func session)) = 0 \<or>
              2 \<le> length (filter (py_in sid) (session_func nyu_func session))) \<longrightarrow>
            gen_error (nyu_rest_subject_factory nyu_func out_dir session ids)
              = Some AssertionError)"
proof -
  let ?sf = "session_func nyu_func session"
  let ?g = "nyu_rest_loop ?sf out_dir session ids"
  have ids: "set ids = set (subject_ids ?sf)"
    using assms by (simp add: py_set_iter_iff)
  have a: "subject_id r \<in> set (subject_ids ?sf) \<and>
            (\<exists>x. func r = Path x \<and> filter (py_in (subject_id r)) ?sf = [x] \<and>
                 x \<in> set ?sf \<and> py_in (subject_id r) x \<and>
                 (\<forall>y\<in>set ?sf. py_in (subject_id r) y \<longrightarrow> y = x))"
    if "r \<in> set (gen_records ?g)" for r
  proof -
    from nyu_rest_loop_unique [OF that] obtain x
      where x: "subject_id r \<in> set ids" "func r = Path x" "filter (py_in (subject_id r)) ?sf = [x]"
      by blast
    from filter_singletonD [OF x(3)] x ids show ?thesis
      by blast
  qed
  have b: "gen_error ?g = None \<and> map subject_id (gen_records ?g) = ids"
    if "\<forall>sid\<in>set (subject_ids ?sf). length (filter (py_in sid) ?sf) = 1"
  proof -
    from that ids have "list_all (\<lambda>sid. length (filter (py_in sid) ?sf) = 1) ids"
      by (simp add: list_all_iff)
    then show ?thesis
      by (simp add: nyu_rest_loop_error nyu_rest_loop_complete)
  qed
  have c: "gen_error ?g = Some AssertionError"
    if "\<exists>sid\<in>set (subject_ids ?sf). length (filter (py_in sid) ?sf) = 0 \<or>
              2 \<le> length (filter (py_in sid) ?sf)"
  proof -
    from that obtain sid where "sid \<in> set (subject_ids ?sf)"
      "length (filter (py_in sid) ?sf) \<noteq> 1"
      by fastforce
    with ids have "\<not> list_all (\<lambda>sid. length (filter (py_in sid) ?sf) = 1) ids"
      unfolding list_all_iff by blast
    then show ?thesis
      by (simp add: nyu_rest_loop_error)
  qed
  from a b c show ?thesis
    unfolding nyu_rest_subject_factory_def by blast
qed

text \<open>
  The theorem at the nested listing, visited as \<open>s2, s1\<close> (each identifier has its one
  path), and at the listing with two runs of one subject (the identifier has two).
\<close>

theorem nyu_unique_path_or_assertion_witness:
  "[''s2'', ''s1''] \<in> py_set_iter (subject_ids (session_func listing_nested 1)) \<and>
   gen_error (nyu_rest_subject_factory listing_nested ''/out'' 1 [''s2'', ''s1'']) = None \<and>
   map subject_id (gen_records (nyu_rest_subject_factory listing_nested ''/out'' 1 [''s2'', ''s1'']))
     = [''s2'', ''s1''] \<and>
   [''s1''] \<in> py_set_iter (subject_ids (session_func listing_two_runs 1)) \<and>
   gen_error (nyu_rest_subject_factory listing_two_runs ''/out'' 1 [''s1'']) = Some AssertionError"
proof -
  have h2: "[''s2'', ''s1''] \<in> py_set_iter (subject_ids (session_func listing_nested 1))"
    by (auto simp add: session_func_nested subject_ids_nested py_set_iter_iff)
  have u2: "\<forall>sid\<in>set (subject_ids (session_func listing_nested 1)).
      length (filter (py_in sid) (session_func listing_nested 1)) = 1"
    by (simp add: session_func_nested subject_ids_nested)
  have h3: "[''s1''] \<in> py_set_iter (subject_ids (session_func listing_two_runs 1))"
    by (simp add: session_func_two_runs subject_ids_two_runs py_set_iter_iff)
  have u3: "\<exists>sid\<in>set (subject_ids (session_func listing_two_runs 1)).
      length (filter (py_in sid) (session_func listing_two_runs 1)) = 0 \<or>
      2 \<le> length (filter (py_in sid) (session_func listing_two_runs 1))"
    by (simp add: session_func_two_runs subject_ids_two_runs)
  from nyu_unique_path_or_assertion [OF h2, of "''/out''"] u2
       nyu_unique_path_or_assertion [OF h3, of "''/out''"] u3 h2 h3
  show ?thesis
    by blast
qed

lemma nyu_rest_loop_mset:
  assumes "list_all (\<lambda>sid. length (filter (py_in sid) sf) = 1) ids"
  shows "mset (gen_records (nyu_rest_loop sf out_dir session ids)) =
     image_mset (\<lambda>sid. \<lparr>subject_id = sid, func = Path (hd (filter (py_in sid) sf)),
                 output_dir = join out_dir [session_marker session, sid]\<rparr>) (mset ids)"
proof -
  from assms have tw: "takeWhile (\<lambda>sid. length (filter (py_in sid) sf) = 1) ids = ids"
    by (simp add: list_all_iff)
  show ?thesis
    unfolding nyu_rest_loop_records tw by simp
qed

lemma py_set_iter_mset:
  assumes "ids1 \<in> py_set_iter xs" and "ids2 \<in> py_set_iter xs"
  shows "mset ids1 = mset ids2"
  using assms by (simp add: py_set_iter_iff set_eq_iff_mset_eq_distinct [symmetric])

text \<open>
  Claim C6, as the code has it. The NYU factory keeps nothing between invocations: what
  it yields is determined by the listing, the output directory, the session and the order
  in which the set of identifiers is visited. Any two invocations over the same listing,
  whatever the order in which each visits the set, end the same way (both normally or
  both with the assertion error), and when they end normally they yield equal multisets
  of records.
\<close>

theorem nyu_factory_restartable:
  assumes "ids1 \<in> py_set_iter (subject_ids (session_func nyu_func session))"
    and "ids2 \<in> py_set_iter (subject_ids (session_func nyu_func session))"
  shows "gen_error (nyu_rest_subject_factory nyu_func out_dir session ids1) =
           gen_error (nyu_rest_subject_factory nyu_func out_dir session ids2) \<and>
         (gen_error (nyu_rest_subject_factory nyu_func out_dir session ids1) = None \<longrightarrow>
            mset (gen_records (nyu_rest_subject_factory nyu_func out_dir session ids1)) =
            mset (gen_records (nyu_rest_subject_factory nyu_func out_dir session ids2)))"
proof -
  let ?sf = "session_func nyu_func session"
  let ?P = "\<lambda>sid. length (filter (py_in sid) ?sf) = 1"
  have same_set: "set ids1 = set ids2"
    using assms by (simp add: py_set_iter_iff)
  then have all: "list_all ?P ids1 = list_all ?P ids2"
    by (simp add: list_all_iff)
  have "mset (gen_records (nyu_rest_loop ?sf out_dir session ids1)) =
        mset (gen_records (nyu_rest_loop ?sf out_dir session ids2))"
    if "list_all ?P ids1"
  proof -
    from that all have "list_all ?P ids2"
      by simp
    with that py_set_iter_mset [OF assms] show ?thesis
      by (simp add: nyu_rest_loop_mset)
  qed
  with all show ?thesis
    by (simp add: nyu_rest_subject_factory_def nyu_rest_loop_error)
qed

text \<open>
  The theorem at the nested listing, visited once as \<open>s1, s2\<close> and once as \<open>s2, s1\<close>.
\<close>

theorem nyu_factory_restartable_witness:
  "[''s1'', ''s2''] \<in> py_set_iter (subject_ids (session_func listing_nested 1)) \<and>
   [''s2'', ''s1''] \<in> py_set_iter (subject_ids (session_func listing_nested 1)) \<and>
   gen_error (nyu_rest_subject_factory listing_nested ''/out'' 1 [''s1'', ''s2'']) = None \<and>
   mset (gen_records (nyu_rest_subject_factory listing_nested ''/out'' 1 [''s1'', ''s2''])) =
   mset (gen_records (nyu_rest_subject_factory listing_nested ''/out'' 1 [''s2'', ''s1'']))"
proof -
  have h1: "[''s1'', ''s2''] \<in> py_set_iter (subject_ids (session_func listing_nested 1))"
    by (simp add: session_func_nested subject_ids_nested py_set_iter_iff)
  have h2: "[''s2'', ''s1''] \<in> py_set_iter (subject_ids (session_func listing_nested 1))"
    by (auto simp add: session_func_nested subject_ids_nested py_set_iter_iff)
  have e: "gen_error (nyu_rest_subject_factory listing_nested ''/out'' 1 [''s1'', ''s2'']) = None"
    by (simp add: nyu_rest_subject_factory_def session_func_nested)
  from nyu_factory_restartable [OF h1 h2, of "''/out''"] e h1 h2 show ?thesis
    by blast
qed

lemma session_func_s1_s10: "session_func listing_s1_s10 1 = listing_s1_s10"
  by (simp add: session_func_def session_marker_1)

lemma subject_ids_s1_s10: "subject_ids listing_s1_s10 = [''s1'', ''s10'']"
  by (simp add: subject_ids_def subject_id_of_def dirname_def basename_def rstrip_def)

text \<open>
  When the assertion fails, the multisets need not be equal. In the listing below the
  identifier \<open>s1\<close> occurs in both paths and \<open>s10\<close> in one. An invocation that visits
  \<open>s1\<close> first raises before it yields anything; an invocation that visits \<open>s10\<close> first
  yields the record of \<open>s10\<close> and raises then.
\<close>

theorem nyu_factory_restartable_counterexample:
  "[''s1'', ''s10''] \<in> py_set_iter (subject_ids (session_func listing_s1_s10 1)) \<and>
   [''s10'', ''s1''] \<in> py_set_iter (subject_ids (session_func listing_s1_s10 1)) \<and>
   nyu_rest_subject_factory listing_s1_s10 ''/out'' 1 [''s1'', ''s10'']
     = Raise AssertionError \<and>
   nyu_rest_subject_factory listing_s1_s10 ''/out'' 1 [''s10'', ''s1'']
     = Yield \<lparr>subject_id = ''s10'', func = Path ''/d/session1/s10/func/f.nii'',
              output_dir = ''/out/session1/s10''\<rparr> (Raise AssertionError) \<and>
   mset (gen_records (nyu_rest_subject_factory listing_s1_s10 ''/out'' 1 [''s1'', ''s10'']))
     \<noteq> mset (gen_records
         (nyu_rest_subject_factory listing_s1_s10 ''/out'' 1 [''s10'', ''s1'']))"
proof -
  have h1: "[''s1'', ''s10''] \<in> py_set_iter (subject_ids (session_func listing_s1_s10 1))"
    by (simp add: session_func_s1_s10 subject_ids_s1_s10 py_set_iter_iff)
  have h2: "[''s10'', ''s1''] \<in> py_set_iter (subject_ids (session_func listing_s1_s10 1))"
    by (auto simp add: session_func_s1_s10 subject_ids_s1_s10 py_set_iter_iff)
  have a: "nyu_rest_subject_factory listing_s1_s10 ''/out'' 1 [''s1'', ''s10'']
      = Raise AssertionError"
    by (simp add: nyu_rest_subject_factory_def session_func_s1_s10)
  have b: "nyu_rest_subject_factory listing_s1_s10 ''/out'' 1 [''s10'', ''s1'']
      = Yield \<lparr>subject_id = ''s10'', func = Path ''/d/session1/s10/func/f.nii'',
              output_dir = ''/out/session1/s10''\<rparr> (Raise AssertionError)"
    by (simp add: nyu_rest_subject_factory_def session_func_s1_s10 session_marker_1
        join.simps startswith_slash_def endswith_slash_def)
  from h1 h2 a b show ?thesis
    by simp
qed

lemma length_takeWhile_less:
  "\<not> list_all P xs \<Longrightarrow> length (takeWhile P xs) < length xs"
  by (induction xs) auto

text \<open>
  Claim C5, as the code has it. When the NYU factory ends normally, the number of records
  it has yielded is the number of distinct identifiers derived from the session-filtered
  listing; when it fails on its assertion, it has yielded fewer. Each of the three
  single-subject factories yields exactly one record and ends normally.
\<close>

theorem factory_record_count:
  assumes "ids \<in> py_set_iter (subject_ids (session_func nyu_func session))"
  shows "(gen_error (nyu_rest_subject_factory nyu_func out_dir session ids) = None \<longrightarrow>
            length (gen_records (nyu_rest_subject_factory nyu_func out_dir session ids)) =
              card (set (subject_ids (session_func nyu_func session)))) \<and>
         (gen_error (nyu_rest_subject_factory nyu_func out_dir session ids) \<noteq> None \<longrightarrow>
            length (gen_records (nyu_rest_subject_factory nyu_func out_dir session ids)) <
              card (set (subject_ids (session_func nyu_func session)))) \<and>
         length (gen_records (fsl_feeds_subject_factory fsl_func out_dir)) = 1 \<and>
         gen_error (fsl_feeds_subject_factory fsl_func out_dir) = None \<and>
         length (gen_records (spm_multimodal_fmri_subject_factory func1 func2 out_dir)) = 1 \<and>
         gen_error (spm_multimodal_fmri_subject_factory func1 func2 out_dir) = None \<and>
         length (gen_records (spm_auditory_subject_factory aud_func out_dir)) = 1 \<and>
         gen_error (spm_auditory_subject_factory aud_func out_dir) = None"
proof -
  let ?sf = "session_func nyu_func session"
  let ?P = "\<lambda>sid. length (filter (py_in sid) ?sf) = 1"
  have card: "card (set (subject_ids ?sf)) = length ids"
    using assms distinct_card [of ids] by (simp add: py_set_iter_iff)
  have ok: "length (gen_records (nyu_rest_loop ?sf out_dir session ids)) = length ids"
    if "list_all ?P ids"
  proof -
    from that have tw: "takeWhile ?P ids = ids"
      by (simp add: list_all_iff)
    show ?thesis
      unfolding nyu_rest_loop_records tw by simp
  qed
  have bad: "length (gen_records (nyu_rest_loop ?sf out_dir session ids)) < length ids"
    if "\<not> list_all ?P ids"
    using length_takeWhile_less [OF that] unfolding nyu_rest_loop_records by simp
  from ok bad show ?thesis
    by (simp add: nyu_rest_subject_factory_def nyu_rest_loop_error card
        fsl_feeds_subject_factory_def spm_multimodal_fmri_subject_factory_def
        spm_auditory_subject_factory_def Let_def)
qed

text \<open>
  The theorem at the nested listing (two identifiers, two records) and at the listing
  with two runs of one subject (one identifier, the assertion fails before any record).
\<close>

theorem factory_record_count_witness:
  "[''s1'', ''s2''] \<in> py_set_iter (subject_ids (session_func listing_nested 1)) \<and>
   gen_error (nyu_rest_subject_factory listing_nested ''/out'' 1 [''s1'', ''s2'']) = None \<and>
   length (gen_records (nyu_rest_subject_factory listing_nested ''/out'' 1 [''s1'', ''s2''])) =
     card (set (subject_ids (session_func listing_nested 1))) \<and>
   [''s1''] \<in> py_set_iter (subject_ids (session_func listing_two_runs 1)) \<and>
   gen_error (nyu_rest_subject_factory listing_two_runs ''/out'' 1 [''s1'']) \<noteq> None \<and>
   length (gen_records (nyu_rest_subject_factory listing_two_runs ''/out'' 1 [''s1''])) <
     card (set (subject_ids (session_func listing_two_runs 1)))"
proof -
  have h1: "[''s1'', ''s2''] \<in> py_set_iter (subject_ids (session_func listing_nested 1))"
    by (simp add: session_func_nested subject_ids_nested py_set_iter_iff)
  have e1: "gen_error (nyu_rest_subject_factory listing_nested ''/out'' 1 [''s1'', ''s2'']) = None"
    by (simp add: nyu_rest_subject_factory_def session_func_nested)
  have h2: "[''s1''] \<in> py_set_iter (subject_ids (session_func listing_two_runs 1))"
    by (simp add: session_func_two_runs subject_ids_two_runs py_set_iter_iff)
  have e2: "gen_error (nyu_rest_subject_factory listing_two_runs ''/out'' 1 [''s1'']) \<noteq> None"
    by (simp add: nyu_rest_subject_factory_def session_func_two_runs)
  from factory_record_count [OF h1, of "''/out''"] factory_record_count [OF h2, of "''/out''"]
    e1 e2 h1 h2
  show ?thesis
    by blast
qed

text \<open>
  The count does not hold for every listing: with two runs in the directory of one
  subject there is one distinct identifier, and the factory raises without a record.
\<close>

theorem factory_record_count_counterexample:
  "[''s1''] \<in> py_set_iter (subject_ids (session_func listing_two_runs 1)) \<and>
   nyu_rest_subject_factory listing_two_runs ''/out'' 1 [''s1''] = Raise AssertionError \<and>
   length (gen_records (nyu_rest_subject_factory listing_two_runs ''/out'' 1 [''s1''])) = 0 \<and>
   card (set (subject_ids (session_func listing_two_runs 1))) = 1"
  by (simp add: nyu_rest_subject_factory_def session_func_two_runs subject_ids_two_runs
      py_set_iter_iff)

lemma distinct_singleton_set:
  assumes "distinct ys" and "set ys = {a}"
  shows "ys = [a]"
proof -
  from assms have "length ys = 1"
    using distinct_card [of ys] by simp
  then obtain y where "ys = [y]"
    using length_one_conv [of ys] by blast
  with assms show ?thesis
    by simp
qed

lemma py_set_iter_twice: "py_set_iter [a, a] = {[a]}"
proof -
  have "ys \<in> py_set_iter [a, a] \<longleftrightarrow> ys = [a]" for ys
    using distinct_singleton_set [of ys a] by (auto simp: py_set_iter_iff)
  then show ?thesis
    by blast
qed

lemma join_session_suffix:
  "\<not> startswith_slash sid \<Longrightarrow> suffix (''session1/'' @ sid) (join out_dir [''session1'', sid])"
  by (auto simp: join.simps startswith_slash_def endswith_slash_def suffix_def)

text \<open>
  The scenario of claim C1 as it is written. The directory two levels above
  \<open>/d/session1/s1/f.nii\<close> is \<open>session1\<close>, for both paths; this one identifier is
  contained in both paths, the assertion fails, and no record is yielded.
\<close>

theorem nyu_flat_scenario_counterexample:
  "py_set_iter (subject_ids (session_func listing_flat 1)) = {[''session1'']} \<and>
   nyu_rest_subject_factory listing_flat ''/tmp/nyu_mrimc_output'' 1 [''session1'']
     = Raise AssertionError \<and>
   gen_records (nyu_rest_subject_factory listing_flat ''/tmp/nyu_mrimc_output'' 1 [''session1''])
     = []"
  by (simp add: py_set_iter_twice nyu_rest_subject_factory_def session_func_flat
      subject_ids_flat)

text \<open>
  Claim C1, as the code has it. For the flat listing of the scenario and session 1, the
  only derived identifier is \<open>session1\<close> and the factory raises the assertion error
  before it yields anything, whatever the output directory. With the subject's directory
  two levels above the file (the nested listing), the identifiers are \<open>s1\<close> and \<open>s2\<close> and
  the factory yields exactly two records, in some order, whose output directories end in
  \<open>session1/s1\<close> and \<open>session1/s2\<close>.
\<close>

theorem nyu_scenario:
  assumes "ids \<in> py_set_iter (subject_ids (session_func listing_flat 1))"
    and "ids' \<in> py_set_iter (subject_ids (session_func listing_nested 1))"
  shows "set (subject_ids (session_func listing_flat 1)) = {''session1''} \<and>
         nyu_rest_subject_factory listing_flat out_dir 1 ids = Raise AssertionError \<and>
         set (subject_ids (session_func listing_nested 1)) = {''s1'', ''s2''} \<and>
         gen_error (nyu_rest_subject_factory listing_nested out_dir 1 ids') = None \<and>
         mset (gen_records (nyu_rest_subject_factory listing_nested out_dir 1 ids')) =
           {#\<lparr>subject_id = ''s1'', func = Path ''/d/session1/s1/func/f.nii'',
               output_dir = join out_dir [''session1'', ''s1'']\<rparr>,
             \<lparr>subject_id = ''s2'', func = Path ''/d/session1/s2/func/f.nii'',
               output_dir = join out_dir [''session1'', ''s2'']\<rparr>#} \<and>
         suffix ''session1/s1'' (join out_dir [''session1'', ''s1'']) \<and>
         suffix ''session1/s2'' (join out_dir [''session1'', ''s2''])"
proof -
  from assms(1) have ids: "ids = [''session1'']"
    by (simp add: py_set_iter_twice session_func_flat subject_ids_flat)
  have flat: "nyu_rest_subject_factory listing_flat out_dir 1 ids = Raise AssertionError"
    by (simp add: ids nyu_rest_subject_factory_def session_func_flat)
  let ?P = "\<lambda>sid. length (filter (py_in sid) listing_nested) = 1"
  from assms(2) have d: "distinct ids'" and s: "set ids' = {''s1'', ''s2''}"
    by (simp_all add: py_set_iter_iff session_func_nested subject_ids_nested)
  have "distinct [''s1'', ''s2'']"
    by simp
  with d s have m: "mset ids' = mset [''s1'', ''s2'']"
    using set_eq_iff_mset_eq_distinct [of ids' "[''s1'', ''s2'']"] by simp
  have all: "list_all ?P ids'"
    unfolding list_all_iff s by simp
  have err: "gen_error (nyu_rest_subject_factory listing_nested out_dir 1 ids') = None"
    using all by (simp add: nyu_rest_subject_factory_def session_func_nested nyu_rest_loop_error)
  have recs: "mset (gen_records (nyu_rest_subject_factory listing_nested out_dir 1 ids')) =
           {#\<lparr>subject_id = ''s1'', func = Path ''/d/session1/s1/func/f.nii'',
               output_dir = join out_dir [''session1'', ''s1'']\<rparr>,
             \<lparr>subject_id = ''s2'', func = Path ''/d/session1/s2/func/f.nii'',
               output_dir = join out_dir [''session1'', ''s2'']\<rparr>#}"
    unfolding nyu_rest_subject_factory_def session_func_nested nyu_rest_loop_mset [OF all] m
    by (simp add: session_marker_1)
  have suf: "suffix ''session1/s1'' (join out_dir [''session1'', ''s1''])"
    "suffix ''session1/s2'' (join out_dir [''session1'', ''s2''])"
    using join_session_suffix [of "''s1''" out_dir] join_session_suffix [of "''s2''" out_dir]
    by (simp_all add: startswith_slash_def)
  from flat err recs suf show ?thesis
    by (simp add: session_func_flat subject_ids_flat session_func_nested subject_ids_nested)
qed

text \<open>The theorem with the output directory \<open>/out\<close> and the set visited as \<open>s2, s1\<close>.\<close>

theorem nyu_scenario_witness:
  "[''session1''] \<in> py_set_iter (subject_ids (session_func listing_flat 1)) \<and>
   [''s2'', ''s1''] \<in> py_set_iter (subject_ids (session_func listing_nested 1)) \<and>
   nyu_rest_subject_factory listing_flat ''/out'' 1 [''session1''] = Raise AssertionError \<and>
   gen_records (nyu_rest_subject_factory listing_nested ''/out'' 1 [''s2'', ''s1'']) =
     [\<lparr>subject_id = ''s2'', func = Path ''/d/session1/s2/func/f.nii'',
        output_dir = ''/out/session1/s2''\<rparr>,
      \<lparr>subject_id = ''s1'', func = Path ''/d/session1/s1/func/f.nii'',
        output_dir = ''/out/session1/s1''\<rparr>] \<and>
   mset (gen_records (nyu_rest_subject_factory listing_nested ''/out'' 1 [''s2'', ''s1''])) =
     {#\<lparr>subject_id = ''s1'', func = Path ''/d/session1/s1/func/f.nii'',
         output_dir = join ''/out'' [''session1'', ''s1'']\<rparr>,
       \<lparr>subject_id = ''s2'', func = Path ''/d/session1/s2/func/f.nii'',
         output_dir = join ''/out'' [''session1'', ''s2'']\<rparr>#}"
proof -
  have h1: "[''session1''] \<in> py_set_iter (subject_ids (session_func listing_flat 1))"
    by (simp add: py_set_iter_twice session_func_flat subject_ids_flat)
  have h2: "[''s2'', ''s1''] \<in> py_set_iter (subject_ids (session_func listing_nested 1))"
    by (auto simp add: session_func_nested subject_ids_nested py_set_iter_iff)
  have ev: "gen_records (nyu_rest_subject_factory listing_nested ''/out'' 1 [''s2'', ''s1'']) =
     [\<lparr>subject_id = ''s2'', func = Path ''/d/session1/s2/func/f.nii'',
        output_dir = ''/out/session1/s2''\<rparr>,
      \<lparr>subject_id = ''s1'', func = Path ''/d/session1/s1/func/f.nii'',
        output_dir = ''/out/session1/s1''\<rparr>]"
    by (simp add: nyu_rest_subject_factory_def session_func_nested session_marker_1 join.simps
        startswith_slash_def endswith_slash_def)
  from nyu_scenario [OF h1 h2, of "''/out''"] h1 h2 ev show ?thesis
    by simp
qed

text \<open>
  Claim C9. The session filter keeps exactly the paths in which the marker text occurs
  somewhere, with nothing required of what follows it. Hence a path that contains the
  marker of a session whose decimal name extends the requested one (\<open>session10\<close> for
  session 1) is kept as well.
\<close>

theorem session_filter_is_substring_test:
  "set (session_func nyu_func session) =
     {x \<in> set nyu_func. \<exists>before after. x = before @ session_marker session @ after} \<and>
   (prefix (fmt_i session) (fmt_i session') \<and> x \<in> set nyu_func \<and>
    py_in (session_marker session') x \<longrightarrow> x \<in> set (session_func nyu_func session))"
proof -
  have "py_in (session_marker session) x"
    if "prefix (fmt_i session) (fmt_i session')" "py_in (session_marker session') x"
  proof -
    from that(1) have "prefix (session_marker session) (session_marker session')"
      by (simp add: session_marker_def)
    then have "sublist (session_marker session) (session_marker session')"
      by (rule prefix_imp_sublist)
    moreover from that(2) have "sublist (session_marker session') x"
      by (simp add: py_in_sublist)
    ultimately show ?thesis
      unfolding py_in_sublist by (metis append.assoc sublist_def)
  qed
  then show ?thesis
    by (auto simp: session_func_def py_in_iff)
qed

text \<open>
  The theorem at sessions 1 and 10: of three paths for the sessions 1, 10 and 2, the
  filter for session 1 keeps the first two.
\<close>

theorem session_filter_is_substring_test_witness:
  "prefix (fmt_i 1) (fmt_i 10) \<and>
   py_in (session_marker 10) ''/d/session10/s1/func/f.nii'' \<and>
   ''/d/session10/s1/func/f.nii'' \<in> set (session_func
      [''/d/session1/s1/func/f.nii'', ''/d/session10/s1/func/f.nii'',
       ''/d/session2/s1/func/f.nii''] 1) \<and>
   session_func [''/d/session1/s1/func/f.nii'', ''/d/session10/s1/func/f.nii'',
       ''/d/session2/s1/func/f.nii''] 1 =
     [''/d/session1/s1/func/f.nii'', ''/d/session10/s1/func/f.nii'']"
proof -
  have p: "prefix (fmt_i 1) (fmt_i 10)"
    by (simp add: fmt_i_def digits.simps)
  have c: "py_in (session_marker 10) ''/d/session10/s1/func/f.nii''"
    by (simp add: session_marker_10)
  have e: "session_func [''/d/session1/s1/func/f.nii'', ''/d/session10/s1/func/f.nii'',
       ''/d/session2/s1/func/f.nii''] 1 =
     [''/d/session1/s1/func/f.nii'', ''/d/session10/s1/func/f.nii'']"
    by (simp add: session_func_def session_marker_1)
  have m: "''/d/session10/s1/func/f.nii'' \<in> set [''/d/session1/s1/func/f.nii'',
      ''/d/session10/s1/func/f.nii'', ''/d/session2/s1/func/f.nii'']"
    by simp
  have "prefix (fmt_i 1) (fmt_i 10) \<and>
      ''/d/session10/s1/func/f.nii'' \<in> set [''/d/session1/s1/func/f.nii'',
        ''/d/session10/s1/func/f.nii'', ''/d/session2/s1/func/f.nii''] \<and>
      py_in (session_marker 10) ''/d/session10/s1/func/f.nii'' \<longrightarrow>
      ''/d/session10/s1/func/f.nii'' \<in> set (session_func [''/d/session1/s1/func/f.nii'',
        ''/d/session10/s1/func/f.nii'', ''/d/session2/s1/func/f.nii''] 1)"
    using session_filter_is_substring_test [of "[''/d/session1/s1/func/f.nii'',
      ''/d/session10/s1/func/f.nii'', ''/d/session2/s1/func/f.nii'']" 1 10
      "''/d/session10/s1/func/f.nii''"]
    by (rule conjunct2)
  with p m c have "''/d/session10/s1/func/f.nii'' \<in> set (session_func
      [''/d/session1/s1/func/f.nii'', ''/d/session10/s1/func/f.nii'',
       ''/d/session2/s1/func/f.nii''] 1)"
    by blast
  with p c e show ?thesis
    by blast
qed

section \<open>Properties of the runner\<close>

subsection \<open>The runner stops at the first call that raises\<close>

lemma all_ok_append: "all_ok w h (t @ u) = (all_ok w h t \<and> all_ok w (h @ t) u)"
  by (induction t arbitrary: h) auto

lemma stops_at_failure_None: "stops_at_failure w h t None \<Longrightarrow> all_ok w h t"
  by (induction t arbitrary: h) (auto split: sum.splits)

lemma stops_at_failure_append:
  "all_ok w h t \<Longrightarrow> stops_at_failure w (h @ t) u r \<Longrightarrow> stops_at_failure w h (t @ u) r"
  by (induction t arbitrary: h) (auto split: sum.splits)

lemma stops_at_failure_split:
  "stops_at_failure w h t r \<Longrightarrow> t = t1 @ c # t2 \<Longrightarrow> respond w (h @ t1) c = Inl e
     \<Longrightarrow> t2 = [] \<and> r = Some e"
proof (induction t1 arbitrary: h t)
  case Nil
  then show ?case by simp
next
  case (Cons a t1)
  from Cons.prems(2) have t: "t = a # (t1 @ c # t2)"
    by simp
  show ?case
  proof (cases "respond w h a")
    case (Inl e')
    with Cons.prems(1) t show ?thesis by simp
  next
    case (Inr v)
    with Cons.prems(1) t have "stops_at_failure w (h @ [a]) (t1 @ c # t2) r"
      by simp
    moreover from Cons.prems(3) have "respond w ((h @ [a]) @ t1) c = Inl e"
      by simp
    ultimately show ?thesis
      using Cons.IH [of "h @ [a]" "t1 @ c # t2"] by blast
  qed
qed

text \<open>
  Every block of the runner only adds calls to the history and stops at the first call
  that raises: a single call followed by such a block, two such blocks in sequence, the
  plotting loop, the body of the loop over the subjects, and the loop itself.
\<close>

lemma run_invI:
  assumes "\<And>h. \<exists>t. fst (m h) = h @ t \<and> stops_at_failure w h t (snd (m h))"
  shows "run_inv w m"
  using assms by (simp add: run_inv_def)


lemma run_inv_return: "run_inv w (\<lambda>h. (h, r))"
  by (simp add: run_inv_def)

lemma run_inv_call_then:
  assumes "\<And>v. run_inv w (k v)"
  shows "run_inv w (call_then w c k)"
proof (rule run_invI)
  fix h
  show "\<exists>t. fst (call_then w c k h) = h @ t \<and> stops_at_failure w h t (snd (call_then w c k h))"
  proof (cases "respond w h c")
    case (Inl e)
    then have "fst (call_then w c k h) = h @ [c]" "stops_at_failure w h [c] (snd (call_then w c k h))"
      by (simp_all add: call_then_def)
    then show ?thesis by blast
  next
    case (Inr v)
    from assms [of v] obtain t where t: "fst (k v (h @ [c])) = (h @ [c]) @ t"
      "stops_at_failure w (h @ [c]) t (snd (k v (h @ [c])))"
      unfolding run_inv_def by blast
    with Inr have "fst (call_then w c k h) = h @ (c # t)"
      "stops_at_failure w h (c # t) (snd (call_then w c k h))"
      by (simp_all add: call_then_def)
    then show ?thesis by blast
  qed
qed

lemma run_inv_seq:
  assumes "run_inv w m1" and "run_inv w m2"
  shows "run_inv w (\<lambda>h. case m1 h of (h', Some e) \<Rightarrow> (h', Some e) | (h', None) \<Rightarrow> m2 h')"
proof (rule run_invI)
  fix h
  let ?m = "\<lambda>h. case m1 h of (h', Some e) \<Rightarrow> (h', Some e) | (h', None) \<Rightarrow> m2 h'"
  from assms(1) obtain t where t: "fst (m1 h) = h @ t" "stops_at_failure w h t (snd (m1 h))"
    unfolding run_inv_def by blast
  show "\<exists>t. fst (?m h) = h @ t \<and> stops_at_failure w h t (snd (?m h))"
  proof (cases "snd (m1 h)")
    case (Some e)
    with t have "m1 h = (h @ t, Some e)"
      by (simp add: prod_eq_iff)
    with t Some show ?thesis by auto
  next
    case None
    with t have m1: "m1 h = (h @ t, None)"
      by (simp add: prod_eq_iff)
    from None t have ok: "all_ok w h t"
      by (simp add: stops_at_failure_None)
    from assms(2) obtain u where u: "fst (m2 (h @ t)) = (h @ t) @ u"
      "stops_at_failure w (h @ t) u (snd (m2 (h @ t)))"
      unfolding run_inv_def by blast
    from ok u(2) have "stops_at_failure w h (t @ u) (snd (m2 (h @ t)))"
      by (rule stops_at_failure_append)
    with m1 u(1) show ?thesis by auto
  qed
qed

lemma run_inv_plot_loop: "run_inv w (plot_loop w sid dataset_id ps)"
proof (induction ps)
  case Nil
  have "plot_loop w sid dataset_id [] = (\<lambda>h. (h, None))"
    by (rule ext) simp
  then show ?case by (simp add: run_inv_return)
next
  case (Cons p ps)
  obtain sess f where p: "p = (sess, f)" by (cases p)
  have "plot_loop w sid dataset_id (p # ps) =
      call_then w (Render f (plot_title sid sess dataset_id)) (\<lambda>_. plot_loop w sid dataset_id ps)"
    by (rule ext) (simp add: p)
  with Cons show ?case by (simp add: run_inv_call_then)
qed

lemma run_inv_subject_body: "run_inv w (subject_body w sd dataset_id kw)"
  unfolding subject_body_def
  by (intro run_inv_call_then run_inv_seq run_inv_plot_loop run_inv_return)

lemma run_inv_demo_runner: "run_inv w (demo_runner w subjects dataset_id kw)"
proof (induction subjects)
  case Stop
  have "demo_runner w Stop dataset_id kw = (\<lambda>h. (h, None))"
    by (rule ext) simp
  then show ?case by (simp add: run_inv_return)
next
  case (Raise e)
  have "demo_runner w (Raise e) dataset_id kw = (\<lambda>h. (h, Some e))"
    by (rule ext) simp
  then show ?case by (simp add: run_inv_return)
next
  case (Yield sd subjects)
  have "demo_runner w (Yield sd subjects) dataset_id kw =
      (\<lambda>h. case subject_body w sd dataset_id kw h of
              (h', Some e) \<Rightarrow> (h', Some e)
            | (h', None) \<Rightarrow> demo_runner w subjects dataset_id kw h')"
    by (rule ext) simp
  with run_inv_seq [OF run_inv_subject_body Yield.IH] show ?case
    by simp
qed

text \<open>
  Claim C4. Let a run of the runner, started from the empty history, end with the history
  \<open>h\<close> and the outcome \<open>r\<close>. If a call \<open>c\<close> of that history (a \<open>fit\<close>, a \<open>transform\<close>, a
  plot or any other call to a collaborator), made after the calls \<open>h1\<close>, raised \<open>e\<close>, then
  \<open>c\<close> is the last call of the run: nothing follows it, neither for the same subject nor
  for a later one, hence no retry; and the run ends by raising that same \<open>e\<close>.
\<close>

theorem failure_aborts_run:
  assumes "demo_runner w subjects dataset_id kw [] = (h, r)"
    and "h = h1 @ c # h2"
    and "respond w h1 c = Inl e"
  shows "h2 = [] \<and> r = Some e"
proof -
  from run_inv_demo_runner [of w subjects dataset_id kw] assms(1)
  have "stops_at_failure w [] h r"
    unfolding run_inv_def by (metis append_Nil fst_conv snd_conv)
  from stops_at_failure_split [OF this assms(2)] assms(3) show ?thesis
    by simp
qed

text \<open>
  The theorem for two subjects where plotting the second parameter file of the first
  subject raises: the plot is the last call (no display, nothing for the second subject)
  and the run raises the plotting error.
\<close>

theorem failure_aborts_run_witness:
  "demo_runner failing_render_world (Yield subject_a (Yield subject_b Stop)) ''demo'' Map.empty []
     = ([Print (banner ''a'' ''demo''), Construct Map.empty, Fit (Path ''/d/a.nii''),
         Transform ''/out/a'' True True, Render ''rp_0.txt'' (plot_title ''a'' 0 ''demo'')]
        @ Render ''rp_1.txt'' (plot_title ''a'' 1 ''demo'') # [],
        Some (CollaboratorError ''plot'')) \<and>
   respond failing_render_world
     [Print (banner ''a'' ''demo''), Construct Map.empty, Fit (Path ''/d/a.nii''),
      Transform ''/out/a'' True True, Render ''rp_0.txt'' (plot_title ''a'' 0 ''demo'')]
     (Render ''rp_1.txt'' (plot_title ''a'' 1 ''demo'')) = Inl (CollaboratorError ''plot'')"
proof -
  let ?h1 = "[Print (banner ''a'' ''demo''), Construct Map.empty, Fit (Path ''/d/a.nii''),
         Transform ''/out/a'' True True, Render ''rp_0.txt'' (plot_title ''a'' 0 ''demo'')]"
  let ?c = "Render ''rp_1.txt'' (plot_title ''a'' 1 ''demo'')"
  obtain h r where run:
    "demo_runner failing_render_world (Yield subject_a (Yield subject_b Stop)) ''demo'' Map.empty []
       = (h, r)"
    by (cases "demo_runner failing_render_world (Yield subject_a (Yield subject_b Stop))
        ''demo'' Map.empty []")
  have h: "h = ?h1 @ ?c # []"
    using run
    by (simp add: subject_body_def call_then_def respond_def failing_render_world_def
        upt_rec [of 0])
  have resp: "respond failing_render_world ?h1 ?c = Inl (CollaboratorError ''plot'')"
    by (simp add: respond_def failing_render_world_def)
  from failure_aborts_run [OF run h resp] run h resp show ?thesis
    by simp
qed

subsection \<open>The calls of a run in which no call raises\<close>

lemma call_then_ok: "respond w h c = Inr v \<Longrightarrow> call_then w c k h = k v (h @ [c])"
  by (simp add: call_then_def)

lemma not_isl_Inr: "\<not> isl x \<Longrightarrow> \<exists>v. x = Inr v"
  by (cases x) auto

lemma plot_loop_ok:
  "all_ok w h (map (\<lambda>(sess, f). Render f (plot_title sid sess dataset_id)) ps) \<Longrightarrow>
   plot_loop w sid dataset_id ps h =
     (h @ map (\<lambda>(sess, f). Render f (plot_title sid sess dataset_id)) ps, None)"
proof (induction ps arbitrary: h)
  case Nil
  then show ?case by simp
next
  case (Cons p ps)
  obtain sess f where p: "p = (sess, f)" by (cases p)
  from Cons.prems p obtain v
    where v: "respond w h (Render f (plot_title sid sess dataset_id)) = Inr v"
      and rest: "all_ok w (h @ [Render f (plot_title sid sess dataset_id)])
        (map (\<lambda>(sess, f). Render f (plot_title sid sess dataset_id)) ps)"
    using not_isl_Inr by auto
  from Cons.IH [OF rest] v p show ?case
    by (simp add: call_then_ok)
qed

lemma subject_body_ok:
  assumes "all_ok w h (subject_calls dataset_id kw sd (transform_output w h dataset_id kw sd))"
  shows "subject_body w sd dataset_id kw h =
     (h @ subject_calls dataset_id kw sd (transform_output w h dataset_id kw sd), None)"
proof -
  let ?p = "Print (banner (subject_id sd) dataset_id)"
  let ?t = "Transform (output_dir sd) True True"
  let ?rp = "transform_output w h dataset_id kw sd"
  let ?renders = "map (\<lambda>(sess, f). Render f (plot_title (subject_id sd) sess dataset_id))
      (zip [0 ..< length ?rp] ?rp)"
  let ?h4 = "h @ [?p, Construct kw, Fit (func sd), ?t]"
  from assms have a: "all_ok w h ([?p, Construct kw, Fit (func sd), ?t] @ ?renders @ [Show])"
    by (simp add: subject_calls_def)
  from a have "\<not> isl (respond w h ?p)"
    by simp
  then obtain v1 where r1: "respond w h ?p = Inr v1"
    using not_isl_Inr by blast
  from a have "\<not> isl (respond w (h @ [?p]) (Construct kw))"
    by simp
  then obtain v2 where r2: "respond w (h @ [?p]) (Construct kw) = Inr v2"
    using not_isl_Inr by blast
  from a have "\<not> isl (respond w (h @ [?p, Construct kw]) (Fit (func sd)))"
    by simp
  then obtain v3 where r3: "respond w (h @ [?p, Construct kw]) (Fit (func sd)) = Inr v3"
    using not_isl_Inr by blast
  from a have "\<not> isl (respond w (h @ [?p, Construct kw, Fit (func sd)]) ?t)"
    by simp
  then obtain v4 where r4: "respond w (h @ [?p, Construct kw, Fit (func sd)]) ?t = Inr v4"
    using not_isl_Inr by blast
  from r4 have rp: "?rp = v4"
    by (simp add: transform_output_def)
  from a have renders: "all_ok w ?h4 ?renders" and "all_ok w (?h4 @ ?renders) [Show]"
    by (simp_all add: all_ok_append)
  then have "\<not> isl (respond w (?h4 @ ?renders) Show)"
    by simp
  then obtain v5 where r5: "respond w (?h4 @ ?renders) Show = Inr v5"
    using not_isl_Inr by blast
  from plot_loop_ok [OF renders]
  have pl: "plot_loop w (subject_id sd) dataset_id (zip [0 ..< length ?rp] ?rp) ?h4 =
      (?h4 @ ?renders, None)" .
  have "call_then w Show (\<lambda>_ h''. (h'', None)) (?h4 @ ?renders) = ((?h4 @ ?renders) @ [Show], None)"
    by (simp only: call_then_ok [OF r5])
  with pl have "(case plot_loop w (subject_id sd) dataset_id (zip [0 ..< length ?rp] ?rp) ?h4 of
          (h', Some e) \<Rightarrow> (h', Some e)
        | (h', None) \<Rightarrow> call_then w Show (\<lambda>_ h''. (h'', None)) h') =
      ((?h4 @ ?renders) @ [Show], None)"
    by (simp only: prod.case option.case)
  then have "subject_body w sd dataset_id kw h = ((?h4 @ ?renders) @ [Show], None)"
    unfolding subject_body_def
    by (simp only: call_then_ok [OF r1] call_then_ok [OF r2] call_then_ok [OF r3]
        call_then_ok [OF r4] rp [symmetric] append_assoc append_Cons append_Nil)
  then show ?thesis
    by (simp add: subject_calls_def)
qed

lemma demo_runner_ok:
  "all_ok w h (expected_calls w (gen_records subjects) dataset_id kw h) \<Longrightarrow>
   demo_runner w subjects dataset_id kw h =
     (h @ expected_calls w (gen_records subjects) dataset_id kw h, gen_error subjects)"
proof (induction subjects arbitrary: h)
  case Stop
  then show ?case by simp
next
  case (Raise e)
  then show ?case by simp
next
  case (Yield sd subjects)
  let ?block = "subject_calls dataset_id kw sd (transform_output w h dataset_id kw sd)"
  from Yield.prems have b: "all_ok w h ?block"
    and rest: "all_ok w (h @ ?block) (expected_calls w (gen_records subjects) dataset_id kw (h @ ?block))"
    by (simp_all add: all_ok_append)
  from subject_body_ok [OF b] Yield.IH [OF rest] show ?case
    by simp
qed

lemma fit_args_append: "fit_args (xs @ ys) = fit_args xs @ fit_args ys"
  by (induction xs rule: fit_args.induct) auto

lemma transform_args_append: "transform_args (xs @ ys) = transform_args xs @ transform_args ys"
  by (induction xs rule: transform_args.induct) auto

lemma render_files_append: "render_files (xs @ ys) = render_files xs @ render_files ys"
  by (induction xs rule: render_files.induct) auto

lemma args_of_renders:
  "fit_args (map (\<lambda>(sess, f). Render f (title sess)) ps) = []"
  "transform_args (map (\<lambda>(sess, f). Render f (title sess)) ps) = []"
  "render_files (map (\<lambda>(sess, f). Render f (title sess)) ps) = map snd ps"
  by (induction ps) auto

lemma args_of_subject_calls:
  "fit_args (subject_calls dataset_id kw sd rp) = [func sd]"
  "transform_args (subject_calls dataset_id kw sd rp) = [output_dir sd]"
  "render_files (subject_calls dataset_id kw sd rp) = rp"
  by (simp_all add: subject_calls_def fit_args_append transform_args_append
      render_files_append args_of_renders)

lemma args_of_expected_calls:
  "fit_args (expected_calls w sds dataset_id kw h) = map func sds"
  "transform_args (expected_calls w sds dataset_id kw h) = map output_dir sds"
  by (induction sds arbitrary: h)
    (simp_all add: fit_args_append transform_args_append args_of_subject_calls)

text \<open>
  Claim C3, as the code has it. For every subject sequence: when none of the calls to the
  collaborators raises, the runner makes exactly the calls of \<open>expected_calls\<close> for the
  subjects the sequence yields, in their order: per subject one \<open>fit\<close> on its \<open>func\<close>,
  then one \<open>transform\<close> into its \<open>output_dir\<close>, then one plot per parameter file that
  \<open>transform\<close> left, in the order of the files. The run ends as the sequence ends.
\<close>

theorem runner_call_sequence:
  assumes "all_ok w [] (expected_calls w (gen_records subjects) dataset_id kw [])"
  shows "demo_runner w subjects dataset_id kw [] =
           (expected_calls w (gen_records subjects) dataset_id kw [], gen_error subjects) \<and>
         fit_args (fst (demo_runner w subjects dataset_id kw []))
           = map func (gen_records subjects) \<and>
         transform_args (fst (demo_runner w subjects dataset_id kw []))
           = map output_dir (gen_records subjects) \<and>
         render_files (subject_calls dataset_id kw sd rp_filenames) = rp_filenames"
  using demo_runner_ok [of w "[]" subjects dataset_id kw, OF assms]
  by (simp add: args_of_expected_calls args_of_subject_calls)

text \<open>
  Without the proviso the statement fails: when \<open>fit\<close> raises for the first of two
  subjects, the second subject gets no \<open>fit\<close> and nobody gets a \<open>transform\<close>.
\<close>

theorem runner_call_sequence_counterexample:
  "demo_runner failing_fit_world (Yield subject_a (Yield subject_b Stop)) ''demo'' Map.empty []
     = ([Print (banner ''a'' ''demo''), Construct Map.empty, Fit (Path ''/d/a.nii'')],
        Some (CollaboratorError ''fit'')) \<and>
   fit_args (fst (demo_runner failing_fit_world (Yield subject_a (Yield subject_b Stop))
       ''demo'' Map.empty [])) = [Path ''/d/a.nii''] \<and>
   transform_args (fst (demo_runner failing_fit_world (Yield subject_a (Yield subject_b Stop))
       ''demo'' Map.empty [])) = [] \<and>
   map func (gen_records (Yield subject_a (Yield subject_b Stop)))
     = [Path ''/d/a.nii'', Path ''/d/b.nii'']"
  by (simp add: subject_body_def call_then_def respond_def failing_fit_world_def)

lemma expected_two_session:
  "expected_calls two_session_world [subject_a, subject_b] ''demo'' Map.empty [] =
     [Print (banner ''a'' ''demo''), Construct Map.empty, Fit (Path ''/d/a.nii''),
      Transform ''/out/a'' True True,
      Render ''rp_0.txt'' (plot_title ''a'' 0 ''demo''),
      Render ''rp_1.txt'' (plot_title ''a'' 1 ''demo''), Show,
      Print (banner ''b'' ''demo''), Construct Map.empty, Fit (Path ''/d/b.nii''),
      Transform ''/out/b'' True True,
      Render ''rp_0.txt'' (plot_title ''b'' 0 ''demo''),
      Render ''rp_1.txt'' (plot_title ''b'' 1 ''demo''), Show]"
  by (simp add: subject_calls_def transform_output_def respond_def two_session_world_def
      upt_rec [of 0])

text \<open>
  The theorem for two subjects and collaborators that return, with two parameter files
  per subject.
\<close>

theorem runner_call_sequence_witness:
  "all_ok two_session_world []
     (expected_calls two_session_world (gen_records (Yield subject_a (Yield subject_b Stop)))
        ''demo'' Map.empty []) \<and>
   demo_runner two_session_world (Yield subject_a (Yield subject_b Stop)) ''demo'' Map.empty []
     = ([Print (banner ''a'' ''demo''), Construct Map.empty, Fit (Path ''/d/a.nii''),
         Transform ''/out/a'' True True,
         Render ''rp_0.txt'' (plot_title ''a'' 0 ''demo''),
         Render ''rp_1.txt'' (plot_title ''a'' 1 ''demo''), Show,
         Print (banner ''b'' ''demo''), Construct Map.empty, Fit (Path ''/d/b.nii''),
         Transform ''/out/b'' True True,
         Render ''rp_0.txt'' (plot_title ''b'' 0 ''demo''),
         Render ''rp_1.txt'' (plot_title ''b'' 1 ''demo''), Show], None) \<and>
   fit_args (fst (demo_runner two_session_world (Yield subject_a (Yield subject_b Stop))
       ''demo'' Map.empty [])) = [Path ''/d/a.nii'', Path ''/d/b.nii'']"
proof -
  have ok: "all_ok two_session_world []
     (expected_calls two_session_world (gen_records (Yield subject_a (Yield subject_b Stop)))
        ''demo'' Map.empty [])"
    unfolding gen_records.simps expected_two_session
    by (simp add: respond_def two_session_world_def)
  from runner_call_sequence [OF ok] ok show ?thesis
    unfolding gen_records.simps expected_two_session by simp
qed

subsection \<open>The demos\<close>

text \<open>
  Whatever the collaborators do, the history of a subject's block starts with the
  progress line and the construction of the engine with the keyword arguments.
\<close>

lemma fst_subject_body:
  "\<exists>t. fst (subject_body w sd dataset_id kw h) =
     h @ Print (banner (subject_id sd) dataset_id) # Construct kw # t"
proof -
  let ?p = "Print (banner (subject_id sd) dataset_id)"
  let ?k = "\<lambda>_::string list. call_then w (Fit (func sd)) (\<lambda>_.
     call_then w (Transform (output_dir sd) True True) (\<lambda>rp_filenames h.
       (case plot_loop w (subject_id sd) dataset_id
               (zip [0 ..< length rp_filenames] rp_filenames) h of
          (h', Some e) \<Rightarrow> (h', Some e)
        | (h', None) \<Rightarrow> call_then w Show (\<lambda>_ h''. (h'', None)) h')))"
  have rp: "respond w h ?p = Inr []"
    by (simp add: respond_def)
  have body: "subject_body w sd dataset_id kw h = call_then w (Construct kw) ?k (h @ [?p])"
    unfolding subject_body_def by (simp only: call_then_ok [OF rp])
  show ?thesis
  proof (cases "respond w (h @ [?p]) (Construct kw)")
    case (Inl e)
    with body show ?thesis
      by (simp add: call_then_def)
  next
    case (Inr v)
    have "run_inv w (?k v)"
      by (intro run_inv_call_then run_inv_seq run_inv_plot_loop run_inv_return)
    then obtain t where t: "fst (?k v ((h @ [?p]) @ [Construct kw])) =
        ((h @ [?p]) @ [Construct kw]) @ t"
      unfolding run_inv_def by blast
    from body have "subject_body w sd dataset_id kw h = ?k v ((h @ [?p]) @ [Construct kw])"
      by (simp only: call_then_ok [OF Inr])
    with t have "fst (subject_body w sd dataset_id kw h) = ((h @ [?p]) @ [Construct kw]) @ t"
      by (simp only:)
    then have "fst (subject_body w sd dataset_id kw h) = h @ ?p # Construct kw # t"
      by (simp only: append_assoc append_Cons append_Nil)
    then show ?thesis
      by (rule exI)
  qed
qed

text \<open>
  Claim C7. The factory of the multimodal demo yields exactly one record, whose \<open>func\<close> is
  the list of \<open>func1\<close> and \<open>func2\<close> in that order, and stops. The demo passes the keyword
  arguments \<open>n_sessions = 2\<close> to the runner, and the runner constructs the engine with
  them: the second call of every run of the demo is that construction.
\<close>

theorem multimodal_two_runs_and_session_count:
  "spm_multimodal_fmri_subject_factory func1 func2 out_dir =
     Yield \<lparr>subject_id = ''sub001'', func = Series [func1, func2],
            output_dir = join out_dir [''sub001'']\<rparr> Stop \<and>
   gen_records (spm_multimodal_fmri_subject_factory func1 func2 out_dir) =
     [\<lparr>subject_id = ''sub001'', func = Series [func1, func2],
       output_dir = join out_dir [''sub001'']\<rparr>] \<and>
   (\<exists>t. fst (demo_spm_multimodal_fmri w func1 func2 out_dir) =
      Print (banner ''sub001'' ''SPM Multimodal fMRI faces vs scrambled'')
      # Construct [''n_sessions'' \<mapsto> 2] # t) \<and>
   [''n_sessions'' \<mapsto> (2::int)] ''n_sessions'' = Some 2"
proof -
  let ?sd = "\<lparr>subject_id = ''sub001'', func = Series [func1, func2],
            output_dir = join out_dir [''sub001'']\<rparr>"
  let ?d = "''SPM Multimodal fMRI faces vs scrambled''"
  let ?kw = "[''n_sessions'' \<mapsto> (2::int)]"
  have f: "spm_multimodal_fmri_subject_factory func1 func2 out_dir = Yield ?sd Stop"
    by (simp add: spm_multimodal_fmri_subject_factory_def Let_def)
  have "fst (demo_runner w (Yield ?sd Stop) ?d ?kw []) = fst (subject_body w ?sd ?d ?kw [])"
    by (cases "subject_body w ?sd ?d ?kw []") (simp split: option.splits)
  with fst_subject_body [of w ?sd ?d ?kw "[]"]
  have "\<exists>t. fst (demo_runner w (Yield ?sd Stop) ?d ?kw []) =
      Print (banner ''sub001'' ?d) # Construct ?kw # t"
    by simp
  with f show ?thesis
    by (simp add: demo_spm_multimodal_fmri_def)
qed

lemma session_marker_2: "session_marker 2 = ''session2''"
  by (simp add: session_marker_def fmt_i_def digits.simps)

text \<open>
  Claim C8. On the empty subject sequence the runner returns at once: no call is made
  and no error raised. When the requested session matches no path of the listing, the
  NYU factory has no identifier to visit and is that empty sequence, so the run over it
  makes no \<open>fit\<close>, \<open>transform\<close> or plotting call and returns normally.
\<close>

theorem empty_sequence_is_not_an_error:
  assumes "session_func nyu_func session = []"
    and "ids \<in> py_set_iter (subject_ids (session_func nyu_func session))"
  shows "demo_runner w Stop dataset_id kw [] = ([], None) \<and>
         ids = [] \<and>
         nyu_rest_subject_factory nyu_func out_dir session ids = Stop \<and>
         demo_runner w (nyu_rest_subject_factory nyu_func out_dir session ids) dataset_id kw []
           = ([], None) \<and>
         fit_args [] = [] \<and> transform_args [] = [] \<and> render_files [] = []"
proof -
  from assms have "ids = []"
    by (simp add: py_set_iter_iff subject_ids_def)
  then show ?thesis
    by (simp add: nyu_rest_subject_factory_def)
qed

text \<open>
  The theorem at the nested listing and session 2, which no path matches, even with
  collaborators whose \<open>fit\<close> would raise.
\<close>

theorem empty_sequence_is_not_an_error_witness:
  "session_func listing_nested 2 = [] \<and>
   [] \<in> py_set_iter (subject_ids (session_func listing_nested 2)) \<and>
   nyu_rest_subject_factory listing_nested ''/out'' 2 [] = Stop \<and>
   demo_runner failing_fit_world (nyu_rest_subject_factory listing_nested ''/out'' 2 [])
     ''NYU resting state'' Map.empty [] = ([], None)"
proof -
  have e: "session_func listing_nested 2 = []"
    by (simp add: session_func_def session_marker_2)
  have h: "[] \<in> py_set_iter (subject_ids (session_func listing_nested 2))"
    by (simp add: e py_set_iter_iff subject_ids_def)
  from empty_sequence_is_not_an_error [OF e h, of failing_fit_world "''NYU resting state''"
      Map.empty "''/out''"] e h
  show ?thesis
    by simp
qed

end
